theory Spec2Isabelle
  imports Main "HOL-Library.Word" "HOL-Library.AList" "HOL-Library.Finite_Map"
    "HOL-Library.Signed_Division"
begin

section \<open>Go strings\<close>

text \<open>
  A Go string is a sequence of bytes, as \<^typ>\<open>string\<close> is. The functions of Go's
  standard package \<open>strings\<close> used by the router are written out for the
  single-byte separators the code passes them.
\<close>

text \<open>\<open>strings.HasPrefix(s, prefix)\<close>.\<close>

definition strings_HasPrefix :: "string \<Rightarrow> string \<Rightarrow> bool" where
  "strings_HasPrefix s pre = (length pre \<le> length s \<and> take (length pre) s = pre)"

text \<open>\<open>strings.TrimPrefix(s, prefix)\<close>: \<open>s\<close> without the leading \<open>prefix\<close>, or \<open>s\<close> itself.\<close>

definition strings_TrimPrefix :: "string \<Rightarrow> string \<Rightarrow> string" where
  "strings_TrimPrefix s pre = (if strings_HasPrefix s pre then drop (length pre) s else s)"

text \<open>\<open>strings.Index(s, sep)\<close> for a one-byte \<open>sep\<close>: the first position of the byte, or -1.\<close>

definition strings_Index :: "string \<Rightarrow> char \<Rightarrow> int" where
  "strings_Index s c = (if c \<in> set s then int (length (takeWhile (\<lambda>x. x \<noteq> c) s)) else - 1)"

text \<open>
  \<open>strings.SplitN(s, sep, 2)\<close> for a one-byte \<open>sep\<close>: the text before the first
  separator and the whole rest after it, or \<open>s\<close> alone when there is no separator.
\<close>

definition strings_SplitN2 :: "string \<Rightarrow> char \<Rightarrow> string list" where
  "strings_SplitN2 s c =
     (if c \<in> set s
      then [takeWhile (\<lambda>x. x \<noteq> c) s, drop 1 (dropWhile (\<lambda>x. x \<noteq> c) s)]
      else [s])"

section \<open>URIs\<close>

text \<open>The type \<open>route.Uri\<close> is a Go string type.\<close>

type_synonym Uri = string

text \<open>
  Modelled from the spec: \<open>Uri.String\<close> of package \<open>route\<close>, which is not among the
  sources; the spec names it the string rendering of the URI.
\<close>

definition Uri_String :: "Uri \<Rightarrow> string" where
  "Uri_String u = u"

section \<open>The context path of a URI\<close>

text \<open>\<open>parseContextPath\<close> of the registry.\<close>

definition parseContextPath :: "Uri \<Rightarrow> string" where
  "parseContextPath uri =
     (let split = strings_SplitN2 (strings_TrimPrefix (Uri_String uri) ''/'') (CHR ''/'');
          contextPath = ''/'' @ (if length split > 1 then split ! 1 else []);
          idx = strings_Index contextPath (CHR ''?'')
      in if idx \<ge> 0 then take (nat idx) contextPath else contextPath)"

section \<open>Time\<close>

text \<open>
  Go's \<open>time.Time\<close> and \<open>time.Duration\<close> are counted in nanoseconds; the zero value of
  each is 0. Every call of \<open>time.Now()\<close> in the code is an argument of the function
  that makes it.
\<close>

type_synonym Time = int
type_synonym Duration = int

section \<open>Endpoints\<close>

text \<open>\<open>models.ModificationTag\<close> of the routing API: a guid and a counter.\<close>

record ModificationTag =
  Guid :: string
  TagIndex :: "32 word"

text \<open>
  Modelled from the spec: the type \<open>route.Endpoint\<close>, which is not among the sources.
  The spec lists its content: application id, host and port, private instance id and
  index, tags, an optional staleness override, an optional route-service URL, a
  modification tag and the time of the last update. An override of 0 is the unset one.
\<close>

record Endpoint =
  ApplicationId :: string
  host :: string
  port :: "16 word"
  PrivateInstanceId :: string
  PrivateInstanceIndex :: string
  Tags :: "(string, string) fmap"
  staleThreshold :: Duration
  RouteServiceUrl :: string
  ModificationTag :: ModificationTag
  updated :: Time

text \<open>
  Modelled from the spec: \<open>route.NewEndpoint\<close>, which takes application id, host, port,
  instance id and index, tags, staleness override (in seconds), route-service URL and a
  modification tag. The override is kept as a duration.
\<close>

definition NewEndpoint ::
  "string \<Rightarrow> string \<Rightarrow> 16 word \<Rightarrow> string \<Rightarrow> string \<Rightarrow> (string, string) fmap \<Rightarrow> int \<Rightarrow> string
     \<Rightarrow> ModificationTag \<Rightarrow> Endpoint" where
  "NewEndpoint appId h p privateInstanceId privateInstanceIndex tags staleThresholdInSeconds
       routeServiceUrl modificationTag =
     \<lparr>ApplicationId = appId, host = h, port = p, PrivateInstanceId = privateInstanceId,
      PrivateInstanceIndex = privateInstanceIndex, Tags = tags,
      staleThreshold = staleThresholdInSeconds * 1000000000,
      RouteServiceUrl = routeServiceUrl, ModificationTag = modificationTag, updated = 0\<rparr>"

text \<open>A natural number in decimal digits, as Go prints a port.\<close>

fun decimal :: "nat \<Rightarrow> string" where
  "decimal n =
     (if n < 10 then [''0123456789'' ! n]
      else decimal (n div 10) @ [''0123456789'' ! (n mod 10)])"

declare decimal.simps [simp del]

text \<open>
  Modelled from the spec: \<open>Endpoint.CanonicalAddr\<close>, which returns \<open>host:port\<close> and is
  the identity of an endpoint in a pool.
\<close>

definition CanonicalAddr :: "Endpoint \<Rightarrow> string" where
  "CanonicalAddr e = host e @ '':'' @ decimal (unat (port e))"

text \<open>
  The endpoint of the spec's end-to-end example: application \<open>app1\<close> at host
  \<open>10.0.0.1\<close>, port \<open>6060\<close>.
\<close>

definition app1 :: Endpoint where
  "app1 = NewEndpoint ''app1'' ''10.0.0.1'' 6060 ''instance-1'' ''0'' fmempty 0 []
            \<lparr>Guid = [], TagIndex = 0\<rparr>"

text \<open>A second endpoint, at another host, with a staleness override of 120 seconds.\<close>

definition app2 :: Endpoint where
  "app2 = NewEndpoint ''app2'' ''10.0.0.2'' 6060 ''instance-2'' ''0'' fmempty 120 []
            \<lparr>Guid = [], TagIndex = 0\<rparr>"

section \<open>Endpoint pools\<close>

text \<open>
  Modelled from the spec: the type \<open>route.Pool\<close>, which is not among the sources. A
  pool owns a mapping from canonical address to endpoint with unique keys, a context
  path and a pool-level staleness threshold. The mapping is an association list: its
  order is the order in which \<open>Each\<close> visits the endpoints.
\<close>

record Pool =
  endpoints :: "(string \<times> Endpoint) list"
  contextPath :: string
  threshold :: Duration

text \<open>Modelled from the spec: \<open>route.NewPool(threshold, contextPath)\<close>, an empty pool.\<close>

definition NewPool :: "Duration \<Rightarrow> string \<Rightarrow> Pool" where
  "NewPool thr path = \<lparr>endpoints = [], contextPath = path, threshold = thr\<rparr>"

text \<open>
  Modelled from the spec: \<open>Pool.Put\<close> inserts or overwrites by canonical address and
  always sets the entry's time of last update to now.
\<close>

definition Put :: "Pool \<Rightarrow> Endpoint \<Rightarrow> Time \<Rightarrow> Pool" where
  "Put p e now = p\<lparr>endpoints := AList.update (CanonicalAddr e) (e\<lparr>updated := now\<rparr>) (endpoints p)\<rparr>"

text \<open>
  Modelled from the spec: \<open>Pool.Remove\<close> deletes by canonical address, whatever the
  other fields of the endpoint passed.
\<close>

definition Remove :: "Pool \<Rightarrow> Endpoint \<Rightarrow> Pool" where
  "Remove p e = p\<lparr>endpoints := AList.delete (CanonicalAddr e) (endpoints p)\<rparr>"

text \<open>Modelled from the spec: \<open>Pool.IsEmpty\<close> is true iff the address mapping is empty.\<close>

definition IsEmpty :: "Pool \<Rightarrow> bool" where
  "IsEmpty p = (endpoints p = [])"

text \<open>
  A Go panic. A method called on a nil \<open>*Pool\<close> that has to read the pool's
  endpoints dereferences the nil pointer.
\<close>

datatype panic = NilPointerDereference

text \<open>
  Modelled from the spec: \<open>Pool.Each(fn)\<close> applies \<open>fn\<close> to every endpoint of the pool.
  The receiver is a pointer that may be nil (\<open>None\<close>); the callback is a function of
  the endpoint and of the variables it captures.
\<close>

definition Each :: "Pool option \<Rightarrow> (Endpoint \<Rightarrow> 'a \<Rightarrow> 'a) \<Rightarrow> 'a \<Rightarrow> panic + 'a" where
  "Each receiver fn captured =
     (case receiver of
        None \<Rightarrow> Inl NilPointerDereference
      | Some p \<Rightarrow> Inr (foldl (\<lambda>a e. fn e a) captured (map snd (endpoints p))))"

text \<open>
  Modelled from the spec: the threshold that \<open>PruneEndpoints\<close> holds an endpoint's age
  against is the endpoint's own override if set, else the pool's threshold, else the
  default passed in. A threshold is set when it is positive.
\<close>

definition staleAfter :: "Pool \<Rightarrow> Duration \<Rightarrow> Endpoint \<Rightarrow> Duration" where
  "staleAfter p defaultThreshold e =
     (if staleThreshold e > 0 then staleThreshold e
      else if threshold p > 0 then threshold p
      else defaultThreshold)"

definition isStale :: "Pool \<Rightarrow> Duration \<Rightarrow> Time \<Rightarrow> Endpoint \<Rightarrow> bool" where
  "isStale p defaultThreshold now e = (now - updated e > staleAfter p defaultThreshold e)"

text \<open>
  Modelled from the spec: \<open>Pool.PruneEndpoints(defaultThreshold)\<close> removes every
  endpoint whose age \<open>now - lastUpdated\<close> exceeds its threshold and returns the removed
  endpoints. The pool after the call comes first in the result.
\<close>

definition PruneEndpoints :: "Pool \<Rightarrow> Duration \<Rightarrow> Time \<Rightarrow> Pool \<times> Endpoint list" where
  "PruneEndpoints p defaultThreshold now =
     (p\<lparr>endpoints := filter (\<lambda>(a, e). \<not> isStale p defaultThreshold now e) (endpoints p)\<rparr>,
      map snd (filter (\<lambda>(a, e). isStale p defaultThreshold now e) (endpoints p)))"

text \<open>
  Modelled from the spec: \<open>Pool.MarkUpdated(now)\<close> sets every endpoint's time of last
  update to \<open>now\<close> and alters no other field.
\<close>

definition MarkUpdated :: "Pool \<Rightarrow> Time \<Rightarrow> Pool" where
  "MarkUpdated p now = p\<lparr>endpoints := map (\<lambda>(a, e). (a, e\<lparr>updated := now\<rparr>)) (endpoints p)\<rparr>"

section \<open>Route keys\<close>

text \<open>
  Modelled from the spec: \<open>Uri.RouteKey\<close>, which is not among the sources, normalizes
  a URI into its trie key and strips any trailing query string. The path is kept.
\<close>

definition RouteKey :: "Uri \<Rightarrow> Uri" where
  "RouteKey u = takeWhile (\<lambda>x. x \<noteq> CHR ''?'') u"

text \<open>
  Modelled from the spec: \<open>Uri.NextWildcard\<close>, which is not among the sources, replaces
  the left-most host segment by the wildcard marker \<open>*\<close>, or signals exhaustion when the
  host is a single segment or the top-level wildcard. The host is the key up to its
  first \<open>/\<close>. On exhaustion the key comes back unchanged beside the error.
\<close>

definition NextWildcard :: "Uri \<Rightarrow> Uri \<times> string option" where
  "NextWildcard u =
     (let h = strings_TrimPrefix (takeWhile (\<lambda>x. x \<noteq> CHR ''/'') u) ''*.'';
          path = dropWhile (\<lambda>x. x \<noteq> CHR ''/'') u
      in if CHR ''.'' \<in> set h
         then (''*'' @ dropWhile (\<lambda>x. x \<noteq> CHR ''.'') h @ path, None)
         else (u, Some ''no next wildcard available''))"

section \<open>The prefix trie\<close>

text \<open>
  Modelled from the spec: the type \<open>container.Trie\<close>, which is not among the sources: a
  tree keyed by URI segments in which each node may own one pool.
\<close>

datatype Trie = Trie (Pool: "Pool option") (ChildNodes: "(string, Trie) fmap")

text \<open>Modelled from the spec: \<open>container.NewTrie\<close>, the root of an empty table.\<close>

definition NewTrie :: Trie where
  "NewTrie = Trie None fmempty"

text \<open>The pieces of a string between the occurrences of a separator byte.\<close>

fun splitOn :: "char \<Rightarrow> string \<Rightarrow> string list" where
  "splitOn c [] = [[]]"
| "splitOn c (x # xs) =
     (if x = c then [] # splitOn c xs
      else (case splitOn c xs of w # ws \<Rightarrow> (x # w) # ws | [] \<Rightarrow> [[x]]))"

text \<open>
  Modelled from the spec: the path of a key in the trie is its segments split on \<open>.\<close>,
  in reverse-domain order.
\<close>

definition segments :: "Uri \<Rightarrow> string list" where
  "segments key = rev (splitOn (CHR ''.'') (Uri_String key))"

text \<open>The pool at the end of a path of segments, if the path and a pool are there.\<close>

fun poolAt :: "Trie \<Rightarrow> string list \<Rightarrow> Pool option" where
  "poolAt t [] = Pool t"
| "poolAt t (s # ss) =
     (case fmlookup (ChildNodes t) s of None \<Rightarrow> None | Some c \<Rightarrow> poolAt c ss)"

text \<open>
  Modelled from the spec: \<open>Trie.Find(key)\<close> is the exact-path lookup: the pool at the
  terminal node if present, else not found.
\<close>

definition Find :: "Trie \<Rightarrow> Uri \<Rightarrow> Pool option" where
  "Find t key = poolAt t (segments key)"

text \<open>
  Modelled from the spec: \<open>Trie.MatchUri(key)\<close> is the exact structural match for a
  key that may bear a wildcard: the pool at that exact node or not found. It does no
  generalization itself.
\<close>

definition MatchUri :: "Trie \<Rightarrow> Uri \<Rightarrow> Pool option" where
  "MatchUri t key = poolAt t (segments key)"

text \<open>
  Modelled from the spec: \<open>Trie.Insert(key, pool)\<close> creates the intermediate nodes as
  needed and attaches the pool at the terminal node, overwriting a prior pool there.
\<close>

fun attach :: "string list \<Rightarrow> Pool \<Rightarrow> Trie \<Rightarrow> Trie" where
  "attach [] p t = Trie (Some p) (ChildNodes t)"
| "attach (s # ss) p t =
     Trie (Pool t)
       (fmupd s (attach ss p (case fmlookup (ChildNodes t) s of None \<Rightarrow> NewTrie | Some c \<Rightarrow> c))
          (ChildNodes t))"

definition Insert :: "Trie \<Rightarrow> Uri \<Rightarrow> Pool \<Rightarrow> Trie" where
  "Insert t key p = attach (segments key) p t"

text \<open>A node with no pool and no children is of no use to any lookup.\<close>

definition useless :: "Trie \<Rightarrow> bool" where
  "useless t = (Pool t = None \<and> ChildNodes t = fmempty)"

text \<open>
  Modelled from the spec: \<open>Trie.Delete(key)\<close> removes the pool reference at the
  terminal node and prunes the ancestors left with no pool and no children, walking
  upward. The root stays.
\<close>

fun detach :: "string list \<Rightarrow> Trie \<Rightarrow> Trie" where
  "detach [] t = Trie None (ChildNodes t)"
| "detach (s # ss) t =
     (case fmlookup (ChildNodes t) s of
        None \<Rightarrow> t
      | Some c \<Rightarrow>
          (let c' = detach ss c
           in if useless c' then Trie (Pool t) (fmdrop s (ChildNodes t))
              else Trie (Pool t) (fmupd s c' (ChildNodes t))))"

definition Delete :: "Trie \<Rightarrow> Uri \<Rightarrow> Trie" where
  "Delete t key = detach (segments key) t"

text \<open>
  A pool found in the trie is held by pointer: a method that changes the pool changes
  the pool of the node that owns it. \<open>onPoolAt f path t\<close> is the trie after such a call
  on the pool at \<open>path\<close>.
\<close>

fun onPoolAt :: "(Pool \<Rightarrow> Pool) \<Rightarrow> string list \<Rightarrow> Trie \<Rightarrow> Trie" where
  "onPoolAt f [] t = Trie (map_option f (Pool t)) (ChildNodes t)"
| "onPoolAt f (s # ss) t =
     (case fmlookup (ChildNodes t) s of
        None \<Rightarrow> t
      | Some c \<Rightarrow> Trie (Pool t) (fmupd s (onPoolAt f ss c) (ChildNodes t)))"

text \<open>
  Modelled from the spec: \<open>Trie.EachNodeWithPool(fn)\<close> visits every node that owns a
  pool and applies \<open>fn\<close> to it. The callback is a function from the node to the node
  after the call.
\<close>

primrec EachNodeWithPool :: "(Trie \<Rightarrow> Trie) \<Rightarrow> Trie \<Rightarrow> Trie" where
  "EachNodeWithPool fn (Trie po cs) =
     (if po = None then Trie po (fmmap (EachNodeWithPool fn) cs)
      else fn (Trie po (fmmap (EachNodeWithPool fn) cs)))"

text \<open>
  Modelled from the spec: \<open>Trie.Snip\<close>, per node. The pool of a node is destroyed when
  it is empty, and a node with no pool and no children is detached from its parent, so
  that the tree holds no dead branch. \<open>Snip\<close> is what the call does to the node itself;
  \<open>snipped\<close> takes the useless nodes off their parents, the root apart.
\<close>

definition Snip :: "Trie \<Rightarrow> Trie" where
  "Snip t =
     (case Pool t of
        None \<Rightarrow> t
      | Some p \<Rightarrow> if IsEmpty p then Trie None (ChildNodes t) else t)"

primrec snipped :: "Trie \<Rightarrow> Trie" where
  "snipped (Trie po cs) =
     Trie po
       (fmfilter
          (\<lambda>s. case fmlookup (fmmap snipped cs) s of None \<Rightarrow> False | Some c \<Rightarrow> \<not> useless c)
          (fmmap snipped cs))"

section \<open>The route registry\<close>

text \<open>\<open>PruneStatus\<close> and the struct \<open>RouteRegistry\<close>. The lock is left out: every operation
  runs as a whole under it. The suspend predicate is a closure; what it reads outside
  the registry is the state \<open>'w\<close> it is applied to. The ticker is the period of a running
  ticker.\<close>

datatype PruneStatus = CONNECTED | DISCONNECTED

record 'w RouteRegistry =
  byUri :: Trie
  suspendPruning :: "'w \<Rightarrow> bool"
  pruningStatus :: PruneStatus
  pruneStaleDropletsInterval :: Duration
  dropletStaleThreshold :: Duration
  ticker :: "Duration option"
  timeOfLastUpdate :: Time

text \<open>\<open>NewRouteRegistry\<close>: every field not set by the code has Go's zero value.\<close>

definition NewRouteRegistry :: "'w RouteRegistry" where
  "NewRouteRegistry =
     \<lparr>byUri = NewTrie, suspendPruning = (\<lambda>_. False), pruningStatus = CONNECTED,
      pruneStaleDropletsInterval = 0, dropletStaleThreshold = 0, ticker = None,
      timeOfLastUpdate = 0\<rparr>"

text \<open>
  \<open>RouteRegistry.Register\<close>. \<open>t\<close> is the time read on entry, \<open>tPut\<close> the time \<open>Put\<close> reads.
  Go divides integers truncating toward zero.
\<close>

definition Register :: "'w RouteRegistry \<Rightarrow> Uri \<Rightarrow> Endpoint \<Rightarrow> Time \<Rightarrow> Time \<Rightarrow> 'w RouteRegistry" where
  "Register r uri endpoint t tPut =
     (let routekey = RouteKey uri;
          trie = (case Find (byUri r) routekey of
                    None \<Rightarrow> Insert (byUri r) routekey
                              (NewPool (dropletStaleThreshold r sdiv 4) (parseContextPath uri))
                  | Some pool \<Rightarrow> byUri r)
      in r\<lparr>byUri := onPoolAt (\<lambda>pool. Put pool endpoint tPut) (segments routekey) trie,
           timeOfLastUpdate := t\<rparr>)"

text \<open>\<open>RouteRegistry.Unregister\<close>.\<close>

definition Unregister :: "'w RouteRegistry \<Rightarrow> Uri \<Rightarrow> Endpoint \<Rightarrow> 'w RouteRegistry" where
  "Unregister r uri endpoint =
     (let key = RouteKey uri
      in case Find (byUri r) key of
           None \<Rightarrow> r
         | Some pool \<Rightarrow>
             (let trie = onPoolAt (\<lambda>pool. Remove pool endpoint) (segments key) (byUri r)
              in if IsEmpty (Remove pool endpoint) then r\<lparr>byUri := Delete trie key\<rparr>
                 else r\<lparr>byUri := trie\<rparr>))"

text \<open>
  Each generalization that does not signal exhaustion shortens the host that is left
  after the wildcard marker: the loop of \<open>Lookup\<close> ends.
\<close>

lemma NextWildcard_shorter:
  assumes "NextWildcard u = (u', None)"
  shows "length (strings_TrimPrefix (takeWhile (\<lambda>x. x \<noteq> CHR ''/'') u') ''*.'')
         < length (strings_TrimPrefix (takeWhile (\<lambda>x. x \<noteq> CHR ''/'') u) ''*.'')"
proof -
  define h where "h = strings_TrimPrefix (takeWhile (\<lambda>x. x \<noteq> CHR ''/'') u) ''*.''"
  define path where "path = dropWhile (\<lambda>x. x \<noteq> CHR ''/'') u"
  define d where "d = dropWhile (\<lambda>x. x \<noteq> CHR ''.'') h"
  from assms have dot: "CHR ''.'' \<in> set h" and u': "u' = ''*'' @ d @ path"
    by (auto simp: NextWildcard_def Let_def h_def path_def d_def split: if_splits)
  have hsub: "set h \<subseteq> set (takeWhile (\<lambda>x. x \<noteq> CHR ''/'') u)"
    by (auto simp: h_def strings_TrimPrefix_def dest: in_set_dropD)
  have noslash: "\<forall>x \<in> set h. x \<noteq> CHR ''/''"
    using hsub set_takeWhileD by fastforce
  have dsub: "set d \<subseteq> set h"
    by (auto simp: d_def dest: set_dropWhileD)
  have dne: "d \<noteq> []"
    using dot by (simp add: d_def dropWhile_eq_Nil_conv)
  then have "hd d = CHR ''.''"
    using hd_dropWhile [of "\<lambda>x. x \<noteq> CHR ''.''" h] by (simp add: d_def)
  with dne obtain d' where d: "d = CHR ''.'' # d'"
    by (cases d) auto
  have pathhd: "path = [] \<or> hd path = CHR ''/''"
    using hd_dropWhile [of "\<lambda>x. x \<noteq> CHR ''/''" u] by (auto simp: path_def)
  have "takeWhile (\<lambda>x. x \<noteq> CHR ''/'') (d @ path) = d"
  proof (cases path)
    case Nil
    then show ?thesis using noslash dsub by (auto simp: takeWhile_eq_all_conv)
  next
    case (Cons a list)
    with pathhd have "a = CHR ''/''" by simp
    then show ?thesis using Cons noslash dsub
      by (subst takeWhile_append2) auto
  qed
  then have "takeWhile (\<lambda>x. x \<noteq> CHR ''/'') u' = ''*'' @ d"
    by (simp add: u')
  then have "strings_TrimPrefix (takeWhile (\<lambda>x. x \<noteq> CHR ''/'') u') ''*.'' = d'"
    by (simp add: d strings_TrimPrefix_def strings_HasPrefix_def)
  moreover have "length d \<le> length h"
    by (simp add: d_def length_dropWhile_le)
  ultimately show ?thesis
    unfolding h_def [symmetric] using d by simp
qed

text \<open>
  The loop of \<open>RouteRegistry.Lookup\<close> on its three variables \<open>uri\<close>, \<open>err\<close> and \<open>pool\<close>.
\<close>

function lookupLoop :: "Trie \<Rightarrow> Uri \<Rightarrow> string option \<Rightarrow> Pool option \<Rightarrow> Pool option" where
  "lookupLoop t uri err pool =
     (if pool = None \<and> err = None
      then (case NextWildcard uri of (uri', err') \<Rightarrow> lookupLoop t uri' err' (MatchUri t uri'))
      else pool)"
  by pat_completeness auto
termination
  apply (relation "measure (\<lambda>(t, uri, err, pool).
          if pool = None \<and> err = None
          then Suc (length (strings_TrimPrefix (takeWhile (\<lambda>x. x \<noteq> CHR ''/'') uri) ''*.''))
          else 0)")
   apply simp
  apply (auto dest: NextWildcard_shorter [OF sym])
  done

declare lookupLoop.simps [simp del]

text \<open>\<open>RouteRegistry.Lookup\<close>.\<close>

definition Lookup :: "'w RouteRegistry \<Rightarrow> Uri \<Rightarrow> Pool option" where
  "Lookup r uri =
     (let key = RouteKey uri
      in lookupLoop (byUri r) key None (MatchUri (byUri r) key))"

text \<open>
  The generalization chain of a key, in the words of the spec: the key, then its
  wildcard generalizations one after the other until \<open>NextWildcard\<close> signals exhaustion.
  \<open>firstPool\<close> is the first pool that \<open>MatchUri\<close> finds along a list of keys.
\<close>

function wildcardChain :: "Uri \<Rightarrow> Uri list" where
  "wildcardChain key =
     key # (case NextWildcard key of
              (key', None) \<Rightarrow> wildcardChain key'
            | (key', Some err) \<Rightarrow> [])"
  by pat_completeness auto
termination
  apply (relation "measure (\<lambda>uri.
          length (strings_TrimPrefix (takeWhile (\<lambda>x. x \<noteq> CHR ''/'') uri) ''*.''))")
   apply simp
  apply (auto dest: NextWildcard_shorter [OF sym])
  done

declare wildcardChain.simps [simp del]

fun firstPool :: "Trie \<Rightarrow> Uri list \<Rightarrow> Pool option" where
  "firstPool t [] = None"
| "firstPool t (key # keys) =
     (case MatchUri t key of None \<Rightarrow> firstPool t keys | Some pool \<Rightarrow> Some pool)"

text \<open>
  \<open>RouteRegistry.LookupWithInstance\<close>. The callback assigns the captured variable
  \<open>surgicalPool\<close>; \<open>tPut\<close> is the time \<open>Put\<close> reads. \<open>Each\<close> is called on the pointer
  that \<open>Lookup\<close> returned, with no check for nil.
\<close>

definition LookupWithInstance ::
  "'w RouteRegistry \<Rightarrow> Uri \<Rightarrow> string \<Rightarrow> string \<Rightarrow> Time \<Rightarrow> panic + Pool option" where
  "LookupWithInstance r uri appId appIndex tPut =
     (let uri' = RouteKey uri;
          p = Lookup r uri'
      in Each p
           (\<lambda>e surgicalPool.
              if ApplicationId e = appId \<and> PrivateInstanceIndex e = appIndex
              then Some (Put (NewPool 0 []) e tPut)
              else surgicalPool)
           None)"

text \<open>\<open>RouteRegistry.SuspendPruning\<close>.\<close>

definition SuspendPruning :: "'w RouteRegistry \<Rightarrow> ('w \<Rightarrow> bool) \<Rightarrow> 'w RouteRegistry" where
  "SuspendPruning r f = r\<lparr>suspendPruning := f\<rparr>"

text \<open>\<open>RouteRegistry.freshenRoutes\<close>; \<open>now\<close> is the time it reads.\<close>

definition freshenRoutes :: "'w RouteRegistry \<Rightarrow> Time \<Rightarrow> 'w RouteRegistry" where
  "freshenRoutes r now =
     r\<lparr>byUri :=
         EachNodeWithPool
           (\<lambda>t. Trie (map_option (\<lambda>pool. MarkUpdated pool now) (Pool t)) (ChildNodes t))
           (byUri r)\<rparr>"

text \<open>
  \<open>RouteRegistry.pruneStaleDroplets\<close>, one tick of the pruning cycle. \<open>world\<close> is what
  the suspend predicate reads, \<open>now\<close> the time \<open>freshenRoutes\<close> reads and \<open>tPrune\<close> the
  time \<open>PruneEndpoints\<close> reads, taken once for the pass. The addresses of the removed
  endpoints are collected and dropped.
\<close>

definition pruneStaleDroplets ::
  "'w RouteRegistry \<Rightarrow> 'w \<Rightarrow> Time \<Rightarrow> Time \<Rightarrow> 'w RouteRegistry" where
  "pruneStaleDroplets r world now tPrune =
     (if suspendPruning r world then r\<lparr>pruningStatus := DISCONNECTED\<rparr>
      else
        (let r1 = (if pruningStatus r = DISCONNECTED then freshenRoutes r now else r);
             r2 = r1\<lparr>pruningStatus := CONNECTED\<rparr>
         in r2\<lparr>byUri :=
                 snipped
                   (EachNodeWithPool
                      (\<lambda>t. Snip (Trie (map_option
                                          (\<lambda>pool. fst (PruneEndpoints pool (dropletStaleThreshold r2) tPrune))
                                          (Pool t))
                                       (ChildNodes t)))
                      (byUri r2))\<rparr>))"

text \<open>No node of the trie owns an empty pool.\<close>

primrec poolsNonEmpty :: "Trie \<Rightarrow> bool" where
  "poolsNonEmpty (Trie po cs) =
     ((case po of None \<Rightarrow> True | Some p \<Rightarrow> \<not> IsEmpty p) \<and>
      fmpred (\<lambda>s ok. ok) (fmmap poolsNonEmpty cs))"

section \<open>Registry messages\<close>

text \<open>The struct \<open>RegistryMessage\<close> of package \<open>mbus\<close>, and \<open>makeEndpoint\<close>.\<close>

record RegistryMessage =
  Host :: string
  Port :: "16 word"
  Uris :: "Uri list"
  Tags :: "(string, string) fmap"
  App :: string
  StaleThresholdInSeconds :: int
  RouteServiceURL :: string
  PrivateInstanceID :: string
  PrivateInstanceIndex :: string

definition makeEndpoint :: "RegistryMessage \<Rightarrow> Endpoint" where
  "makeEndpoint rm =
     NewEndpoint (App rm) (Host rm) (Port rm) (PrivateInstanceID rm)
       (RegistryMessage.PrivateInstanceIndex rm) (RegistryMessage.Tags rm)
       (StaleThresholdInSeconds rm) (RouteServiceURL rm) \<lparr>Guid = [], TagIndex = 0\<rparr>"

section \<open>The message-bus subscriber\<close>

text \<open>
  The subscriber holds the registry behind the interface \<open>registry.Registry\<close>. What a
  handler does to it is the list of the calls it makes, in order.
\<close>

datatype RegistryCall = RegisterCall Uri Endpoint | UnregisterCall Uri Endpoint

text \<open>\<open>RegistryMessage.ValidateMessage\<close>.\<close>

definition ValidateMessage :: "RegistryMessage \<Rightarrow> bool" where
  "ValidateMessage rm =
     (RouteServiceURL rm = [] \<or> strings_HasPrefix (RouteServiceURL rm) ''https'')"

text \<open>
  \<open>createRegistryMessage\<close>. \<open>json.Unmarshal\<close> belongs to Go's standard library and is
  the parameter \<open>unmarshal\<close>: the error (\<open>Inl\<close>) or the decoded message. A Go error is
  its text.
\<close>

definition createRegistryMessage ::
  "(string \<Rightarrow> string + RegistryMessage) \<Rightarrow> string \<Rightarrow> string + RegistryMessage" where
  "createRegistryMessage unmarshal data =
     (case unmarshal data of
        Inl jsonErr \<Rightarrow> Inl jsonErr
      | Inr msg \<Rightarrow>
          if \<not> ValidateMessage msg
          then Inl ''Unable to validate message. route_service_url must be https''
          else Inr msg)"

text \<open>\<open>Subscriber.registerRoute\<close> and \<open>Subscriber.unregisterRoute\<close>, on the data of a message.\<close>

definition registerRoute :: "(string \<Rightarrow> string + RegistryMessage) \<Rightarrow> string \<Rightarrow> RegistryCall list" where
  "registerRoute unmarshal data =
     (case createRegistryMessage unmarshal data of
        Inl regErr \<Rightarrow> []
      | Inr msg \<Rightarrow> map (\<lambda>uri. RegisterCall uri (makeEndpoint msg)) (Uris msg))"

definition unregisterRoute :: "(string \<Rightarrow> string + RegistryMessage) \<Rightarrow> string \<Rightarrow> RegistryCall list" where
  "unregisterRoute unmarshal data =
     (case createRegistryMessage unmarshal data of
        Inl regErr \<Rightarrow> []
      | Inr msg \<Rightarrow> map (\<lambda>uri. UnregisterCall uri (makeEndpoint msg)) (Uris msg))"

text \<open>A NATS message, and the callback that \<open>subscribeRoutes\<close> installs for \<open>router.*\<close>.\<close>

record Msg =
  Subject :: string
  Data :: string

definition routerCallback :: "(string \<Rightarrow> string + RegistryMessage) \<Rightarrow> Msg \<Rightarrow> RegistryCall list" where
  "routerCallback unmarshal message =
     (if Subject message = ''router.register'' then registerRoute unmarshal (Data message)
      else if Subject message = ''router.unregister'' then unregisterRoute unmarshal (Data message)
      else [])"

text \<open>A NATS subscription with its pending limits, and \<open>Subscription.SetPendingLimits\<close>.\<close>

record Subscription =
  subject :: string
  pendingMsgsLimit :: int
  pendingBytesLimit :: int

definition SetPendingLimits :: "Subscription \<Rightarrow> int \<Rightarrow> int \<Rightarrow> Subscription" where
  "SetPendingLimits s msgLimit bytesLimit =
     s\<lparr>pendingMsgsLimit := msgLimit, pendingBytesLimit := bytesLimit\<rparr>"

text \<open>
  \<open>Subscriber.subscribeRoutes\<close>, given what \<open>natsClient.Subscribe\<close> returned: an error
  (\<open>Inl\<close>) and no subscription, or the subscription. The result is the subscription
  as the function leaves it, and the error returned.
\<close>

definition subscribeRoutes :: "string + Subscription \<Rightarrow> Subscription option \<times> string option" where
  "subscribeRoutes subscribed =
     (case subscribed of
        Inl err \<Rightarrow> (None, Some err)
      | Inr natsSubscriber \<Rightarrow>
          (Some (SetPendingLimits natsSubscriber 131072 (131072 * 1024)), None))"

section \<open>Properties\<close>

subsection \<open>Lookups in a changed trie\<close>

lemma poolAt_useless: "useless t \<Longrightarrow> poolAt t ks = None"
  by (cases ks) (simp_all add: useless_def)

lemma poolAt_NewTrie: "poolAt NewTrie ks = None"
  by (cases ks) (simp_all add: NewTrie_def)

lemma poolAt_attach:
  "poolAt (attach ks p t) ks' = (if ks' = ks then Some p else poolAt t ks')"
proof (induction ks arbitrary: t ks')
  case Nil
  then show ?case by (cases ks') simp_all
next
  case (Cons s ss)
  show ?case
  proof (cases ks')
    case Nil
    then show ?thesis by simp
  next
    case (Cons s' ss')
    then show ?thesis
      using Cons.IH by (auto simp: poolAt_NewTrie split: option.splits)
  qed
qed

lemma poolAt_onPoolAt:
  "poolAt (onPoolAt f ks t) ks' = (if ks' = ks then map_option f (poolAt t ks) else poolAt t ks')"
proof (induction ks arbitrary: t ks')
  case Nil
  then show ?case by (cases ks') simp_all
next
  case (Cons s ss)
  show ?case
  proof (cases ks')
    case Nil
    then show ?thesis by (simp split: option.splits)
  next
    case (Cons s' ss')
    then show ?thesis
      using Cons.IH by (auto split: option.splits)
  qed
qed

lemma poolAt_detach:
  "poolAt (detach ks t) ks' = (if ks' = ks then None else poolAt t ks')"
proof (induction ks arbitrary: t ks')
  case Nil
  then show ?case by (cases ks') simp_all
next
  case (Cons s ss)
  show ?case
  proof (cases ks')
    case Nil
    then show ?thesis by (simp add: Let_def split: option.splits)
  next
    case inner: (Cons s' ss')
    show ?thesis
    proof (cases "fmlookup (ChildNodes t) s")
      case None
      then show ?thesis using inner by auto
    next
      case (Some c)
      have ih: "poolAt (detach ss c) ss' = (if ss' = ss then None else poolAt c ss')"
        by (rule Cons.IH)
      show ?thesis
      proof (cases "useless (detach ss c)")
        case True
        then have "poolAt (detach ss c) ss' = None"
          by (rule poolAt_useless)
        with ih have "ss' \<noteq> ss \<Longrightarrow> poolAt c ss' = None"
          by simp
        then show ?thesis using inner Some True
          by (auto simp: Let_def)
      next
        case False
        then show ?thesis using inner Some ih
          by (auto simp: Let_def)
      qed
    qed
  qed
qed

lemma fmupd_same: "fmlookup m s = Some c \<Longrightarrow> fmupd s c m = m"
  by (rule fmap_ext) auto

lemma onPoolAt_fixed:
  "(\<And>p. poolAt t ks = Some p \<Longrightarrow> f p = p) \<Longrightarrow> onPoolAt f ks t = t"
proof (induction ks arbitrary: t)
  case Nil
  then show ?case by (cases t; cases "Pool t") simp_all
next
  case (Cons s ss)
  show ?case
  proof (cases "fmlookup (ChildNodes t) s")
    case None
    then show ?thesis by simp
  next
    case (Some c)
    have "onPoolAt f ss c = c"
      using Cons.prems Some by (intro Cons.IH) simp
    then show ?thesis using Some
      by (cases t) (simp add: fmupd_same)
  qed
qed

lemma poolAt_EachNodeWithPool:
  assumes fn: "\<And>po cs. fn (Trie po cs) = Trie (h po) cs"
    and h: "h None = None"
  shows "poolAt (EachNodeWithPool fn t) ks = h (poolAt t ks)"
proof (induction ks arbitrary: t)
  case Nil
  then show ?case by (cases t) (simp add: fn h)
next
  case (Cons s ss)
  obtain po cs where t: "t = Trie po cs" by (cases t)
  show ?case
    using Cons.IH by (simp add: t fn h split: option.splits)
qed

lemma poolAt_snipped: "poolAt (snipped t) ks = poolAt t ks"
proof (induction ks arbitrary: t)
  case Nil
  then show ?case by (cases t) simp
next
  case (Cons s ss)
  obtain po cs where t: "t = Trie po cs" by (cases t)
  show ?case
  proof (cases "fmlookup cs s")
    case None
    then show ?thesis by (simp add: t)
  next
    case (Some c)
    have ih: "poolAt (snipped c) ss = poolAt c ss" by (rule Cons.IH)
    show ?thesis
    proof (cases "useless (snipped c)")
      case True
      then have "poolAt (snipped c) ss = None" by (rule poolAt_useless)
      then show ?thesis using ih Some True by (simp add: t)
    next
      case False
      then show ?thesis using ih Some by (simp add: t)
    qed
  qed
qed

lemma poolsNonEmpty_poolAt:
  "poolsNonEmpty t \<Longrightarrow> poolAt t ks = Some p \<Longrightarrow> \<not> IsEmpty p"
proof (induction ks arbitrary: t)
  case Nil
  then show ?case by (cases t) simp
next
  case (Cons s ss)
  obtain po cs where t: "t = Trie po cs" by (cases t)
  from Cons.prems(2) obtain c where c: "fmlookup cs s = Some c" and at: "poolAt c ss = Some p"
    by (auto simp: t split: option.splits)
  from Cons.prems(1) c have "poolsNonEmpty c"
    by (auto simp: t fmpred_iff)
  then show ?case using at by (rule Cons.IH)
qed

lemma poolsNonEmptyI:
  "(\<And>ks p. poolAt t ks = Some p \<Longrightarrow> \<not> IsEmpty p) \<Longrightarrow> poolsNonEmpty t"
proof (induction t)
  case (Trie po cs)
  have "poolsNonEmpty c" if "fmlookup cs s = Some c" for s c
  proof -
    have "c \<in> fmran' cs" using that by (rule fmran'I)
    moreover have "\<not> IsEmpty p" if "poolAt c ks = Some p" for ks p
      using Trie.prems [of "s # ks" p] that \<open>fmlookup cs s = Some c\<close> by simp
    ultimately show ?thesis by (rule Trie.IH)
  qed
  moreover have "\<not> IsEmpty p" if "po = Some p" for p
    using Trie.prems [of "[]" p] that by simp
  ultimately show ?case
    by (auto simp: fmpred_iff split: option.splits)
qed

lemma poolsNonEmpty_iff:
  "poolsNonEmpty t \<longleftrightarrow> (\<forall>ks p. poolAt t ks = Some p \<longrightarrow> \<not> IsEmpty p)"
  using poolsNonEmpty_poolAt poolsNonEmptyI by blast

subsection \<open>Pools\<close>

lemma CanonicalAddr_updated: "CanonicalAddr (e\<lparr>updated := t\<rparr>) = CanonicalAddr e"
  by (simp add: CanonicalAddr_def)

lemma Put_not_empty: "\<not> IsEmpty (Put p e t)"
proof -
  have "map_of (endpoints (Put p e t)) (CanonicalAddr e) = Some (e\<lparr>updated := t\<rparr>)"
    by (simp add: Put_def update_conv')
  then show ?thesis
    by (auto simp: IsEmpty_def)
qed

lemma Put_holds: "map_of (endpoints (Put p e t)) (CanonicalAddr e) = Some (e\<lparr>updated := t\<rparr>)"
  by (simp add: Put_def update_conv')

lemma Remove_absent:
  "CanonicalAddr e \<notin> fst ` set (endpoints p) \<Longrightarrow> Remove p e = p"
  by (simp add: Remove_def delete_id)

lemma Remove_addresses:
  "fst ` set (endpoints (Remove p e)) = fst ` set (endpoints p) - {CanonicalAddr e}"
  by (auto simp: Remove_def AList.delete_eq)

lemma Remove_other_fields:
  "contextPath (Remove p e) = contextPath p \<and> threshold (Remove p e) = threshold p"
  by (simp add: Remove_def)

subsection \<open>Lookup\<close>

lemma MatchUri_Find: "MatchUri t key = Find t key"
  by (simp add: MatchUri_def Find_def)

lemma lookupLoop_found: "lookupLoop t key err (Some p) = Some p"
  by (subst lookupLoop.simps) simp

lemma lookupLoop_error: "lookupLoop t key (Some e) pool = pool"
  by (subst lookupLoop.simps) simp

lemma NextWildcard_exhausted: "NextWildcard key = (key', Some err) \<Longrightarrow> key' = key"
  by (auto simp: NextWildcard_def Let_def split: if_splits)

lemma firstPool_None_iff:
  "firstPool t keys = None \<longleftrightarrow> (\<forall>key \<in> set keys. MatchUri t key = None)"
  by (induction keys) (auto split: option.splits)

lemma wildcardChain_Cons: "wildcardChain key = key # tl (wildcardChain key)"
proof -
  have "\<exists>rest. wildcardChain key = key # rest"
    by (subst wildcardChain.simps) simp
  then show ?thesis by auto
qed

lemma lookupLoop_chain:
  "MatchUri t key = None \<Longrightarrow> lookupLoop t key None None = firstPool t (tl (wildcardChain key))"
proof (induction key rule: wildcardChain.induct)
  case (1 key)
  obtain key' err where nw: "NextWildcard key = (key', err)"
    by (cases "NextWildcard key")
  show ?case
  proof (cases err)
    case None
    have chain: "wildcardChain key = key # wildcardChain key'"
      using nw None by (subst wildcardChain.simps) simp
    have chain': "wildcardChain key' = key' # tl (wildcardChain key')"
      by (rule wildcardChain_Cons)
    have step: "lookupLoop t key None None = lookupLoop t key' None (MatchUri t key')"
      using nw None by (subst lookupLoop.simps) simp
    show ?thesis
    proof (cases "MatchUri t key'")
      case miss: None
      have "lookupLoop t key' None None = firstPool t (tl (wildcardChain key'))"
        using nw None miss by (intro "1.IH") auto
      moreover have "firstPool t (wildcardChain key') = firstPool t (tl (wildcardChain key'))"
        using miss by (subst chain') simp
      ultimately show ?thesis
        using step miss chain by simp
    next
      case (Some p)
      have "firstPool t (wildcardChain key') = Some p"
        using Some by (subst chain') simp
      then show ?thesis
        using step Some chain by (simp add: lookupLoop_found)
    qed
  next
    case (Some e)
    then have "key' = key"
      using nw NextWildcard_exhausted by blast
    moreover have "wildcardChain key = [key]"
      using nw Some by (subst wildcardChain.simps) simp
    moreover have "lookupLoop t key None None = lookupLoop t key' (Some e) (MatchUri t key')"
      using nw Some by (subst lookupLoop.simps) simp
    ultimately show ?thesis
      using "1.prems" by (simp add: lookupLoop_error)
  qed
qed

lemma Lookup_firstPool:
  "Lookup r uri = firstPool (byUri r) (wildcardChain (RouteKey uri))"
proof -
  have chain: "wildcardChain (RouteKey uri) = RouteKey uri # tl (wildcardChain (RouteKey uri))"
    by (rule wildcardChain_Cons)
  show ?thesis
  proof (cases "MatchUri (byUri r) (RouteKey uri)")
    case None
    then show ?thesis
      using lookupLoop_chain [OF None] by (subst chain) (simp add: Lookup_def)
  next
    case (Some p)
    then show ?thesis
      by (subst chain) (simp add: Lookup_def lookupLoop_found)
  qed
qed

subsection \<open>The context path\<close>

lemma Index_nonneg_iff: "0 \<le> strings_Index s c \<longleftrightarrow> c \<in> set s"
  by (simp add: strings_Index_def)

lemma take_Index_free: "c \<in> set s \<Longrightarrow> c \<notin> set (take (nat (strings_Index s c)) s)"
proof -
  assume "c \<in> set s"
  then have "take (nat (strings_Index s c)) s = takeWhile (\<lambda>x. x \<noteq> c) s"
    using takeWhile_eq_take [of "\<lambda>x. x \<noteq> c" s] by (simp add: strings_Index_def)
  then show ?thesis
    by (auto dest: set_takeWhileD)
qed

lemma Index_slash_pos:
  assumes "CHR ''?'' \<in> set (CHR ''/'' # t)"
  shows "0 < nat (strings_Index (CHR ''/'' # t) (CHR ''?''))"
  using assms by (simp add: strings_Index_def)

subsection \<open>Register, then Lookup\<close>

lemma Find_Register:
  "Find (byUri (Register r uri e t tPut)) (RouteKey uri) =
     Some (Put (case Find (byUri r) (RouteKey uri) of
                  None \<Rightarrow> NewPool (dropletStaleThreshold r sdiv 4) (parseContextPath uri)
                | Some pool \<Rightarrow> pool) e tPut)"
  by (cases "Find (byUri r) (RouteKey uri)")
    (simp_all add: Register_def Let_def Find_def Insert_def poolAt_onPoolAt poolAt_attach)

lemma poolAt_Register:
  "poolAt (byUri (Register r uri e t tPut)) ks =
     (if ks = segments (RouteKey uri)
      then Some (Put (case poolAt (byUri r) ks of
                        None \<Rightarrow> NewPool (dropletStaleThreshold r sdiv 4) (parseContextPath uri)
                      | Some pool \<Rightarrow> pool) e tPut)
      else poolAt (byUri r) ks)"
  by (cases "poolAt (byUri r) (segments (RouteKey uri))")
    (simp_all add: Register_def Let_def Find_def Insert_def poolAt_onPoolAt poolAt_attach)

text \<open>
  C1: for every URI \<open>u\<close> and endpoint \<open>e\<close>, \<open>Register(u, e)\<close> followed by \<open>Lookup(u)\<close>
  returns a pool, not nil, that holds an endpoint whose canonical address is that of
  \<open>e\<close>.
\<close>

theorem Register_then_Lookup:
  "\<exists>pool ep. Lookup (Register r u e t tPut) u = Some pool \<and>
     (CanonicalAddr e, ep) \<in> set (endpoints pool) \<and>
     CanonicalAddr ep = CanonicalAddr e"
proof -
  define pool where "pool = Put (case Find (byUri r) (RouteKey u) of
                  None \<Rightarrow> NewPool (dropletStaleThreshold r sdiv 4) (parseContextPath u)
                | Some pool \<Rightarrow> pool) e tPut"
  have "MatchUri (byUri (Register r u e t tPut)) (RouteKey u) = Some pool"
    unfolding pool_def MatchUri_Find by (rule Find_Register)
  then have "Lookup (Register r u e t tPut) u = Some pool"
    by (simp add: Lookup_def lookupLoop_found)
  moreover have "(CanonicalAddr e, e\<lparr>updated := tPut\<rparr>) \<in> set (endpoints pool)"
    unfolding pool_def by (rule map_of_SomeD) (rule Put_holds)
  ultimately show ?thesis
    using CanonicalAddr_updated by blast
qed

subsection \<open>The generalization chain of Lookup\<close>

text \<open>
  C3: \<open>Lookup(uri)\<close> normalizes \<open>uri\<close> with \<open>RouteKey\<close>, tries \<open>MatchUri\<close> on that key and
  then on each \<open>NextWildcard\<close> generalization in turn, and returns the first pool
  found; it returns not-found exactly when no key of the chain matches.
\<close>

theorem Lookup_first_match_in_chain:
  "Lookup r uri = firstPool (byUri r) (wildcardChain (RouteKey uri)) \<and>
   (Lookup r uri = None \<longleftrightarrow>
      (\<forall>key \<in> set (wildcardChain (RouteKey uri)). MatchUri (byUri r) key = None))"
  by (simp add: Lookup_firstPool firstPool_None_iff)

lemma MatchUri_NewTrie: "MatchUri NewTrie key = None"
  by (simp add: MatchUri_def poolAt_NewTrie)

lemma wildcardChain_example:
  "wildcardChain (RouteKey ''foo.example.com'') = [''foo.example.com'', ''*.example.com'', ''*.com'']"
proof -
  have nw1: "NextWildcard ''foo.example.com'' = (''*.example.com'', None)"
    and nw2: "NextWildcard ''*.example.com'' = (''*.com'', None)"
    and nw3: "NextWildcard ''*.com'' = (''*.com'', Some ''no next wildcard available'')"
    by (simp_all add: NextWildcard_def strings_TrimPrefix_def strings_HasPrefix_def Let_def)
  have "wildcardChain ''*.com'' = [''*.com'']"
    by (subst wildcardChain.simps) (simp add: nw3)
  then have "wildcardChain ''*.example.com'' = [''*.example.com'', ''*.com'']"
    by (subst wildcardChain.simps) (simp add: nw2)
  then have "wildcardChain ''foo.example.com'' = [''foo.example.com'', ''*.example.com'', ''*.com'']"
    by (subst wildcardChain.simps) (simp add: nw1)
  then show ?thesis
    by (simp add: RouteKey_def)
qed

theorem Lookup_first_match_in_chain_witness:
  "wildcardChain (RouteKey ''foo.example.com'') = [''foo.example.com'', ''*.example.com'', ''*.com''] \<and>
   Lookup (Register (NewRouteRegistry :: unit RouteRegistry) ''*.example.com'' app1 1 2) ''foo.example.com''
     = Some (Put (NewPool (0 sdiv 4) (parseContextPath ''*.example.com'')) app1 2) \<and>
   Lookup (NewRouteRegistry :: unit RouteRegistry) ''foo.example.com'' = None"
proof -
  define r :: "unit RouteRegistry" where "r = Register NewRouteRegistry ''*.example.com'' app1 1 2"
  define P where "P = Put (NewPool (0 sdiv 4) (parseContextPath ''*.example.com'')) app1 2"
  have at: "poolAt (byUri r) ks = (if ks = segments (RouteKey ''*.example.com'') then Some P else None)"
    for ks
    unfolding P_def r_def
    by (simp add: poolAt_Register NewRouteRegistry_def poolAt_NewTrie)
  have exact: "MatchUri (byUri r) ''foo.example.com'' = None"
    by (simp add: MatchUri_def at) (simp add: segments_def RouteKey_def Uri_String_def)
  have wild: "MatchUri (byUri r) ''*.example.com'' = Some P"
    by (simp add: MatchUri_def at) (simp add: segments_def RouteKey_def Uri_String_def)
  have "Lookup r ''foo.example.com'' = firstPool (byUri r) (wildcardChain (RouteKey ''foo.example.com''))"
    using Lookup_first_match_in_chain [of r "''foo.example.com''"] by blast
  then have hit: "Lookup r ''foo.example.com'' = Some P"
    by (simp add: wildcardChain_example exact wild)
  have "\<forall>key \<in> set (wildcardChain (RouteKey ''foo.example.com'')).
      MatchUri (byUri (NewRouteRegistry :: unit RouteRegistry)) key = None"
    by (simp add: NewRouteRegistry_def MatchUri_NewTrie)
  then have miss: "Lookup (NewRouteRegistry :: unit RouteRegistry) ''foo.example.com'' = None"
    using Lookup_first_match_in_chain [of "NewRouteRegistry :: unit RouteRegistry" "''foo.example.com''"]
    by blast
  have "wildcardChain (RouteKey ''foo.example.com'') = [''foo.example.com'', ''*.example.com'', ''*.com''] \<and>
     Lookup r ''foo.example.com'' = Some P \<and>
     Lookup (NewRouteRegistry :: unit RouteRegistry) ''foo.example.com'' = None"
    using wildcardChain_example hit miss by blast
  then show ?thesis
    unfolding r_def P_def .
qed

subsection \<open>LookupWithInstance on a miss\<close>

lemma LookupWithInstance_miss:
  "Lookup r (RouteKey uri) = None \<Longrightarrow>
   LookupWithInstance r uri appId appIndex tPut = Inl NilPointerDereference"
  by (simp add: LookupWithInstance_def Each_def)

lemma Lookup_NewRouteRegistry: "Lookup NewRouteRegistry uri = None"
  by (simp add: Lookup_firstPool firstPool_None_iff NewRouteRegistry_def MatchUri_NewTrie)

text \<open>
  C2, at a URI that \<open>Lookup\<close> misses: on the empty registry, \<open>LookupWithInstance\<close> calls
  \<open>Each\<close> on the nil pool and ends in a nil pointer dereference, where the claim has it
  return not-found.
\<close>

theorem LookupWithInstance_miss_panics:
  "LookupWithInstance (NewRouteRegistry :: unit RouteRegistry) ''foo.example.com'' ''app1'' ''0'' 0
     = Inl NilPointerDereference"
  by (rule LookupWithInstance_miss) (rule Lookup_NewRouteRegistry)

lemma LookupWithInstance_hit:
  "Lookup r (RouteKey uri) = Some p \<Longrightarrow>
   LookupWithInstance r uri appId appIndex tPut =
     Inr (case filter (\<lambda>e. ApplicationId e = appId \<and> Endpoint.PrivateInstanceIndex e = appIndex)
                 (map snd (endpoints p)) of
            [] \<Rightarrow> None
          | e # es \<Rightarrow> Some (Put (NewPool 0 []) (last (e # es)) tPut))"
proof -
  have fold: "foldl (\<lambda>a e. if ApplicationId e = appId \<and> Endpoint.PrivateInstanceIndex e = appIndex
                          then Some (Put (NewPool 0 []) e tPut) else a) a0 xs =
     (case filter (\<lambda>e. ApplicationId e = appId \<and> Endpoint.PrivateInstanceIndex e = appIndex) xs of
        [] \<Rightarrow> a0
      | e # es \<Rightarrow> Some (Put (NewPool 0 []) (last (e # es)) tPut))" for a0 xs
    by (induction xs arbitrary: a0) (auto split: list.splits)
  assume "Lookup r (RouteKey uri) = Some p"
  then show ?thesis
    by (simp add: LookupWithInstance_def Each_def fold)
qed

subsection \<open>The subscriber\<close>

text \<open>
  C9: the subscriber sets the pending limits of its subscription to 131072 messages and
  134217728 bytes, the value of \<open>131072 * 1024\<close>.
\<close>

theorem subscribeRoutes_pending_limits:
  "subscribeRoutes (Inr s) =
     (Some (s\<lparr>pendingMsgsLimit := 131072, pendingBytesLimit := 134217728\<rparr>), None)"
  by (simp add: subscribeRoutes_def SetPendingLimits_def)

lemma HasPrefix_iff: "strings_HasPrefix s pre \<longleftrightarrow> (\<exists>rest. s = pre @ rest)"
proof
  assume "strings_HasPrefix s pre"
  then have "s = pre @ drop (length pre) s"
    by (metis strings_HasPrefix_def append_take_drop_id)
  then show "\<exists>rest. s = pre @ rest" ..
next
  assume "\<exists>rest. s = pre @ rest"
  then show "strings_HasPrefix s pre"
    by (auto simp: strings_HasPrefix_def)
qed

text \<open>
  C8: a message is valid iff its route-service URL is empty or begins with \<open>https\<close>; for
  a message that fails to decode or to validate, the handlers make no \<open>Register\<close> and no
  \<open>Unregister\<close> call.
\<close>

theorem invalid_message_reaches_no_registry:
  "(ValidateMessage rm \<longleftrightarrow>
      RouteServiceURL rm = [] \<or> (\<exists>rest. RouteServiceURL rm = ''https'' @ rest)) \<and>
   ((\<exists>err. unmarshal data = Inl err) \<or> (\<exists>msg. unmarshal data = Inr msg \<and> \<not> ValidateMessage msg)
      \<longrightarrow> registerRoute unmarshal data = [] \<and> unregisterRoute unmarshal data = [] \<and>
          routerCallback unmarshal \<lparr>Subject = subj, Data = data\<rparr> = [])"
  by (auto simp: ValidateMessage_def HasPrefix_iff registerRoute_def unregisterRoute_def
      routerCallback_def createRegistryMessage_def)

theorem invalid_message_reaches_no_registry_witness:
  "\<not> ValidateMessage
       \<lparr>Host = ''10.0.0.1'', Port = 6060, Uris = [''foo.example.com''], Tags = fmempty,
        App = ''app1'', StaleThresholdInSeconds = 0, RouteServiceURL = ''http://x'',
        PrivateInstanceID = ''i'', PrivateInstanceIndex = ''0''\<rparr> \<and>
   registerRoute Inl ''{'' = [] \<and> unregisterRoute Inl ''{'' = [] \<and>
   routerCallback Inl \<lparr>Subject = ''router.register'', Data = ''{''\<rparr> = []"
  using invalid_message_reaches_no_registry
    [of "\<lparr>Host = ''10.0.0.1'', Port = 6060, Uris = [''foo.example.com''], Tags = fmempty,
        App = ''app1'', StaleThresholdInSeconds = 0, RouteServiceURL = ''http://x'',
        PrivateInstanceID = ''i'', PrivateInstanceIndex = ''0''\<rparr>"
        Inl "''{''" "''router.register''"]
  by simp

subsection \<open>A pruning tick while suspended\<close>

text \<open>
  C6, as stated, at the new registry with a suspend predicate that holds: the tick
  changes the pruning status from \<open>CONNECTED\<close> to \<open>DISCONNECTED\<close>, so the state is not
  what it was.
\<close>

theorem suspended_tick_changes_status:
  "suspendPruning (SuspendPruning NewRouteRegistry id) True \<and>
   pruneStaleDroplets (SuspendPruning NewRouteRegistry id) True 0 0
     \<noteq> SuspendPruning NewRouteRegistry id"
proof -
  have "pruningStatus (pruneStaleDroplets (SuspendPruning NewRouteRegistry id) True 0 0)
          = DISCONNECTED"
    by (simp add: pruneStaleDroplets_def SuspendPruning_def)
  moreover have "pruningStatus (SuspendPruning NewRouteRegistry id :: bool RouteRegistry) = CONNECTED"
    by (simp add: SuspendPruning_def NewRouteRegistry_def)
  ultimately have "pruneStaleDroplets (SuspendPruning NewRouteRegistry id) True 0 0
     \<noteq> SuspendPruning NewRouteRegistry id"
    by (metis PruneStatus.distinct(1))
  then show ?thesis
    by (simp add: SuspendPruning_def)
qed

text \<open>
  C6, amended: while the suspend predicate holds, a pruning tick sets the pruning status
  to \<open>DISCONNECTED\<close> and changes nothing else: the trie with every pool and every
  endpoint timestamp, and every other field of the registry, stay as they were.
\<close>

theorem suspended_tick_only_sets_status:
  "suspendPruning r world \<Longrightarrow>
   pruneStaleDroplets r world now tPrune = r\<lparr>pruningStatus := DISCONNECTED\<rparr> \<and>
   byUri (pruneStaleDroplets r world now tPrune) = byUri r"
  by (simp add: pruneStaleDroplets_def)

theorem suspended_tick_only_sets_status_witness:
  "suspendPruning (SuspendPruning NewRouteRegistry id) True \<and>
   pruneStaleDroplets (SuspendPruning NewRouteRegistry id) True 5 6
     = (SuspendPruning NewRouteRegistry id)\<lparr>pruningStatus := DISCONNECTED\<rparr> \<and>
   byUri (pruneStaleDroplets (SuspendPruning NewRouteRegistry id) True 5 6)
     = byUri (SuspendPruning NewRouteRegistry id)"
proof -
  have s: "suspendPruning (SuspendPruning NewRouteRegistry id) True"
    by (simp add: SuspendPruning_def)
  show ?thesis
    using s suspended_tick_only_sets_status [OF s, of 5 6] by simp
qed

subsection \<open>What each operation does to the pools of the trie\<close>

lemma poolAt_Unregister:
  "poolAt (byUri (Unregister r uri e)) ks =
     (if ks = segments (RouteKey uri)
      then (case poolAt (byUri r) ks of
              None \<Rightarrow> None
            | Some pool \<Rightarrow> if IsEmpty (Remove pool e) then None else Some (Remove pool e))
      else poolAt (byUri r) ks)"
  by (cases "poolAt (byUri r) (segments (RouteKey uri))")
    (simp_all add: Unregister_def Let_def Find_def Delete_def poolAt_onPoolAt poolAt_detach)

lemma poolAt_freshenRoutes:
  "poolAt (byUri (freshenRoutes r now)) ks = map_option (\<lambda>pool. MarkUpdated pool now) (poolAt (byUri r) ks)"
  unfolding freshenRoutes_def
  by (simp add: poolAt_EachNodeWithPool [where h = "map_option (\<lambda>pool. MarkUpdated pool now)"])

lemma poolAt_evict:
  "poolAt (snipped (EachNodeWithPool
             (\<lambda>t. Snip (Trie (map_option (\<lambda>pool. fst (PruneEndpoints pool d tPrune)) (Pool t))
                              (ChildNodes t))) trie)) ks =
     (case poolAt trie ks of
        None \<Rightarrow> None
      | Some pool \<Rightarrow>
          if IsEmpty (fst (PruneEndpoints pool d tPrune)) then None
          else Some (fst (PruneEndpoints pool d tPrune)))"
proof -
  define h where "h = (\<lambda>po. case po of
        None \<Rightarrow> None
      | Some pool \<Rightarrow>
          if IsEmpty (fst (PruneEndpoints pool d tPrune)) then None
          else Some (fst (PruneEndpoints pool d tPrune)))"
  have "poolAt (EachNodeWithPool
             (\<lambda>t. Snip (Trie (map_option (\<lambda>pool. fst (PruneEndpoints pool d tPrune)) (Pool t))
                              (ChildNodes t))) trie) ks = h (poolAt trie ks)"
    by (rule poolAt_EachNodeWithPool) (auto simp: h_def Snip_def split: option.splits)
  then show ?thesis
    by (simp add: poolAt_snipped h_def)
qed

lemma poolAt_pruneStaleDroplets:
  "poolAt (byUri (pruneStaleDroplets r world now tPrune)) ks =
     (if suspendPruning r world then poolAt (byUri r) ks
      else (case poolAt (byUri r) ks of
              None \<Rightarrow> None
            | Some pool \<Rightarrow>
                (let pool' = fst (PruneEndpoints
                                    (if pruningStatus r = DISCONNECTED then MarkUpdated pool now else pool)
                                    (dropletStaleThreshold r) tPrune)
                 in if IsEmpty pool' then None else Some pool')))"
proof (cases "suspendPruning r world")
  case True
  then show ?thesis by (simp add: pruneStaleDroplets_def)
next
  case False
  have thr: "dropletStaleThreshold (freshenRoutes r now) = dropletStaleThreshold r"
    by (simp add: freshenRoutes_def)
  show ?thesis
  proof (cases "pruningStatus r = DISCONNECTED")
    case True
    then show ?thesis using False
      by (simp add: pruneStaleDroplets_def Let_def poolAt_evict poolAt_freshenRoutes thr
          split: option.splits)
  next
    case connected: False
    then show ?thesis using False
      by (simp add: pruneStaleDroplets_def Let_def poolAt_evict split: option.splits)
  qed
qed

text \<open>
  C5: none of \<open>Register\<close>, \<open>Unregister\<close> and the pruning sweep leaves an empty pool in
  the trie, and the new registry has none; \<open>Unregister\<close> and the sweep take a pool out
  of the trie exactly when the removal or the eviction has emptied it, and leave every
  other pool where it was; \<open>Register\<close> takes no pool out: it puts the endpoint into the
  pool of its key and leaves the pool at every other path as it was.
\<close>

theorem pool_in_trie_iff_not_empty:
  assumes "poolsNonEmpty (byUri r)"
  shows "poolsNonEmpty (byUri (NewRouteRegistry :: 'w RouteRegistry)) \<and>
     poolsNonEmpty (byUri (Register r uri e t tPut)) \<and>
     poolsNonEmpty (byUri (Unregister r uri e)) \<and>
     poolsNonEmpty (byUri (pruneStaleDroplets r world now tPrune)) \<and>
     (\<forall>ks. poolAt (byUri (Unregister r uri e)) ks =
        (if ks = segments (RouteKey uri)
         then (case poolAt (byUri r) ks of
                 None \<Rightarrow> None
               | Some pool \<Rightarrow> if IsEmpty (Remove pool e) then None else Some (Remove pool e))
         else poolAt (byUri r) ks)) \<and>
     (\<forall>ks. poolAt (byUri (pruneStaleDroplets r world now tPrune)) ks =
        (if suspendPruning r world then poolAt (byUri r) ks
         else (case poolAt (byUri r) ks of
                 None \<Rightarrow> None
               | Some pool \<Rightarrow>
                   (let pool' = fst (PruneEndpoints
                                       (if pruningStatus r = DISCONNECTED then MarkUpdated pool now else pool)
                                       (dropletStaleThreshold r) tPrune)
                    in if IsEmpty pool' then None else Some pool')))) \<and>
     (\<forall>ks. poolAt (byUri (Register r uri e t tPut)) ks =
        (if ks = segments (RouteKey uri)
         then Some (Put (case poolAt (byUri r) ks of
                           None \<Rightarrow> NewPool (dropletStaleThreshold r sdiv 4) (parseContextPath uri)
                         | Some pool \<Rightarrow> pool) e tPut)
         else poolAt (byUri r) ks))"
proof -
  have inv: "\<not> IsEmpty p" if "poolAt (byUri r) ks = Some p" for ks p
    using assms that by (rule poolsNonEmpty_poolAt)
  have new: "poolsNonEmpty (byUri (NewRouteRegistry :: 'w RouteRegistry))"
    by (simp add: NewRouteRegistry_def NewTrie_def)
  have reg: "poolsNonEmpty (byUri (Register r uri e t tPut))"
    by (rule poolsNonEmptyI) (auto simp: poolAt_Register Put_not_empty inv split: if_splits)
  have unreg: "poolsNonEmpty (byUri (Unregister r uri e))"
    by (rule poolsNonEmptyI) (auto simp: poolAt_Unregister inv split: if_splits option.splits)
  have tick: "poolsNonEmpty (byUri (pruneStaleDroplets r world now tPrune))"
    by (rule poolsNonEmptyI)
      (auto simp: poolAt_pruneStaleDroplets Let_def inv split: if_splits option.splits)
  show ?thesis
    using new reg unreg tick
    by (simp only: poolAt_Unregister poolAt_pruneStaleDroplets poolAt_Register simp_thms)
qed

lemma poolsNonEmpty_NewRouteRegistry: "poolsNonEmpty (byUri NewRouteRegistry)"
  by (simp add: NewRouteRegistry_def NewTrie_def)

lemma poolsNonEmpty_Register:
  "poolsNonEmpty (byUri r) \<Longrightarrow> poolsNonEmpty (byUri (Register r uri e t tPut))"
  by (rule poolsNonEmptyI)
    (auto simp: poolAt_Register Put_not_empty split: if_splits dest: poolsNonEmpty_poolAt)

subsection \<open>Unregister\<close>

text \<open>
  C4: \<open>Unregister(uri, e)\<close> normalizes \<open>uri\<close>; if a pool is at that key it removes the
  endpoint with the canonical address of \<open>e\<close> from it and deletes the key from the trie
  exactly when the pool has become empty; if the key has no pool, or the pool does not
  hold the endpoint, the registry is left as it was. No other field changes and there
  is no error. The registry is one in which no empty pool is in the trie, as every
  registry built by the operations is.
\<close>

theorem Unregister_removes_or_leaves_unchanged:
  assumes "poolsNonEmpty (byUri r)"
  shows "(Find (byUri r) (RouteKey uri) = None \<longrightarrow> Unregister r uri e = r) \<and>
     (\<forall>pool. Find (byUri r) (RouteKey uri) = Some pool \<longrightarrow>
        (CanonicalAddr e \<notin> fst ` set (endpoints pool) \<longrightarrow> Unregister r uri e = r) \<and>
        Find (byUri (Unregister r uri e)) (RouteKey uri) =
          (if IsEmpty (Remove pool e) then None else Some (Remove pool e)) \<and>
        endpoints (Remove pool e) =
          filter (\<lambda>(addr, ep). addr \<noteq> CanonicalAddr e) (endpoints pool)) \<and>
     Unregister r uri e = r\<lparr>byUri := byUri (Unregister r uri e)\<rparr>"
proof -
  have miss: "Unregister r uri e = r" if "Find (byUri r) (RouteKey uri) = None"
    using that by (simp add: Unregister_def)
  have absent: "Unregister r uri e = r"
    if found: "Find (byUri r) (RouteKey uri) = Some pool"
      and notin: "CanonicalAddr e \<notin> fst ` set (endpoints pool)" for pool
  proof -
    have same: "Remove pool e = pool"
      using notin by (rule Remove_absent)
    have "\<not> IsEmpty pool"
      using assms found poolsNonEmpty_poolAt by (auto simp: Find_def)
    moreover have "onPoolAt (\<lambda>pool. Remove pool e) (segments (RouteKey uri)) (byUri r) = byUri r"
      using found same by (intro onPoolAt_fixed) (simp add: Find_def)
    ultimately show ?thesis
      using found same by (simp add: Unregister_def Let_def)
  qed
  have after: "Find (byUri (Unregister r uri e)) (RouteKey uri) =
          (if IsEmpty (Remove pool e) then None else Some (Remove pool e))"
    if "Find (byUri r) (RouteKey uri) = Some pool" for pool
    using that by (simp add: Find_def poolAt_Unregister)
  have removed: "endpoints (Remove pool e) =
          filter (\<lambda>(addr, ep). addr \<noteq> CanonicalAddr e) (endpoints pool)" for pool
    by (auto simp: Remove_def AList.delete_eq intro!: filter_cong)
  have frame: "Unregister r uri e = r\<lparr>byUri := byUri (Unregister r uri e)\<rparr>"
    by (simp add: Unregister_def Let_def split: option.splits)
  show ?thesis
    using miss absent after removed frame by blast
qed

subsection \<open>The first tick after a disconnection\<close>

lemma staleAfter_MarkUpdated:
  "staleAfter (MarkUpdated pool now) d (ep\<lparr>updated := t\<rparr>) = staleAfter pool d ep"
  by (simp add: staleAfter_def MarkUpdated_def)

lemma PruneEndpoints_fresh:
  assumes "\<And>addr ep. (addr, ep) \<in> set (endpoints pool) \<Longrightarrow> tPrune - now \<le> staleAfter pool d ep"
  shows "fst (PruneEndpoints (MarkUpdated pool now) d tPrune) = MarkUpdated pool now"
proof -
  have "\<not> isStale (MarkUpdated pool now) d tPrune ep'"
    if "(addr, ep') \<in> set (endpoints (MarkUpdated pool now))" for addr ep'
  proof -
    from that obtain ep where "(addr, ep) \<in> set (endpoints pool)" and "ep' = ep\<lparr>updated := now\<rparr>"
      by (auto simp: MarkUpdated_def)
    then show ?thesis
      using assms [of addr ep] by (simp add: isStale_def staleAfter_MarkUpdated)
  qed
  then have "filter (\<lambda>(a, e). \<not> isStale (MarkUpdated pool now) d tPrune e)
               (endpoints (MarkUpdated pool now)) = endpoints (MarkUpdated pool now)"
    by (intro filter_True) auto
  then show ?thesis
    by (simp add: PruneEndpoints_def)
qed

lemma IsEmpty_MarkUpdated: "IsEmpty (MarkUpdated pool now) = IsEmpty pool"
  by (simp add: IsEmpty_def MarkUpdated_def)

lemma Lookup_hit: "Find (byUri r) (RouteKey u) = Some pool \<Longrightarrow> Lookup r u = Some pool"
  by (simp add: Lookup_def MatchUri_Find lookupLoop_found)

lemma Lookup_miss_everywhere: "(\<And>ks. poolAt (byUri r) ks = None) \<Longrightarrow> Lookup r u = None"
  by (simp add: Lookup_firstPool firstPool_None_iff MatchUri_def)

lemma app1_alone_goes_stale:
  "IsEmpty (fst (PruneEndpoints (MarkUpdated (Put (NewPool (0 sdiv 4) path) app1 t) 10) 0 11))"
  by (simp add: IsEmpty_def PruneEndpoints_def MarkUpdated_def Put_def NewPool_def isStale_def
      staleAfter_def app1_def NewEndpoint_def)

text \<open>
  C7, as stated, on a registry that has one endpoint registered and has been
  disconnected by a suspended tick: the next tick, not suspended, refreshes the
  endpoint at time 10, reads the clock again at time 11 for the eviction, and evicts the
  endpoint, whose threshold of 0 is exceeded.
\<close>

theorem reconnect_tick_can_evict:
  "pruningStatus
     (pruneStaleDroplets
        (SuspendPruning (Register NewRouteRegistry ''foo.example.com'' app1 0 0) id) True 0 0)
     = DISCONNECTED \<and>
   \<not> suspendPruning
     (pruneStaleDroplets
        (SuspendPruning (Register NewRouteRegistry ''foo.example.com'' app1 0 0) id) True 0 0)
     False \<and>
   Lookup
     (pruneStaleDroplets
        (SuspendPruning (Register NewRouteRegistry ''foo.example.com'' app1 0 0) id) True 0 0)
     ''foo.example.com'' \<noteq> None \<and>
   Lookup
     (pruneStaleDroplets
        (pruneStaleDroplets
           (SuspendPruning (Register NewRouteRegistry ''foo.example.com'' app1 0 0) id) True 0 0)
        False 10 11)
     ''foo.example.com'' = None"
proof -
  define r0 :: "bool RouteRegistry" where "r0 = Register NewRouteRegistry ''foo.example.com'' app1 0 0"
  define r1 where "r1 = pruneStaleDroplets (SuspendPruning r0 id) True 0 0"
  have r1: "r1 = r0\<lparr>suspendPruning := id, pruningStatus := DISCONNECTED\<rparr>"
    by (simp add: r1_def pruneStaleDroplets_def SuspendPruning_def)
  have status: "pruningStatus r1 = DISCONNECTED" and running: "\<not> suspendPruning r1 False"
    by (simp_all add: r1)
  have thr: "dropletStaleThreshold r1 = 0"
    by (simp add: r1 r0_def Register_def Let_def NewRouteRegistry_def)
  have "Find (byUri r1) (RouteKey ''foo.example.com'') \<noteq> None"
    by (simp add: r1 r0_def Find_Register)
  then have before: "Lookup r1 ''foo.example.com'' \<noteq> None"
    using Lookup_hit by fastforce
  have at1: "poolAt (byUri r1) ks =
      (if ks = segments (RouteKey ''foo.example.com'')
       then Some (Put (NewPool (0 sdiv 4) (parseContextPath ''foo.example.com'')) app1 0)
       else None)" for ks
    by (simp add: r1 r0_def poolAt_Register NewRouteRegistry_def poolAt_NewTrie)
  have "poolAt (byUri (pruneStaleDroplets r1 False 10 11)) ks = None" for ks
    using running status app1_alone_goes_stale
    by (simp add: poolAt_pruneStaleDroplets thr at1 Let_def)
  then have after: "Lookup (pruneStaleDroplets r1 False 10 11) ''foo.example.com'' = None"
    by (rule Lookup_miss_everywhere)
  show ?thesis
    using status running before after unfolding r1_def r0_def by simp
qed

lemma PruneEndpoints_keeps:
  assumes "(addr, ep) \<in> set (endpoints pool)"
    and "tPrune - now \<le> staleAfter pool d ep"
  shows "(addr, ep\<lparr>updated := now\<rparr>) \<in> set (endpoints (fst (PruneEndpoints (MarkUpdated pool now) d tPrune)))"
proof -
  have "(addr, ep\<lparr>updated := now\<rparr>) \<in> set (endpoints (MarkUpdated pool now))"
    using assms(1) by (force simp: MarkUpdated_def)
  moreover have "\<not> isStale (MarkUpdated pool now) d tPrune (ep\<lparr>updated := now\<rparr>)"
    using assms(2) by (simp add: isStale_def staleAfter_MarkUpdated)
  ultimately show ?thesis
    by (simp add: PruneEndpoints_def)
qed

text \<open>
  C7, amended: on a registry whose pruning status is \<open>DISCONNECTED\<close>, a tick that is not
  suspended is the bulk refresh followed by the tick of a connected registry: it marks
  every endpoint of every pool as updated at the time of the refresh, then runs the
  eviction pass, and the status is \<open>CONNECTED\<close> afterwards. An endpoint is not evicted
  on that tick when the time from the refresh to the clock reading of the eviction pass
  is within that endpoint's staleness threshold: its pool is still in the trie and
  holds it, refreshed. When that is so of every endpoint, every pool that held an
  endpoint is still in the trie, refreshed and whole.
\<close>

theorem reconnect_tick_refreshes_then_evicts:
  assumes "pruningStatus r = DISCONNECTED" and "\<not> suspendPruning r world"
  shows "pruneStaleDroplets r world now tPrune =
       pruneStaleDroplets ((freshenRoutes r now)\<lparr>pruningStatus := CONNECTED\<rparr>) world now tPrune \<and>
     pruningStatus (pruneStaleDroplets r world now tPrune) = CONNECTED \<and>
     (\<forall>ks. poolAt (byUri (freshenRoutes r now)) ks =
        map_option (\<lambda>pool. MarkUpdated pool now) (poolAt (byUri r) ks)) \<and>
     ((\<forall>ks pool addr ep. poolAt (byUri r) ks = Some pool \<longrightarrow> (addr, ep) \<in> set (endpoints pool) \<longrightarrow>
          tPrune - now \<le> staleAfter pool (dropletStaleThreshold r) ep) \<longrightarrow>
      (\<forall>ks. poolAt (byUri (pruneStaleDroplets r world now tPrune)) ks =
         (case poolAt (byUri r) ks of
            None \<Rightarrow> None
          | Some pool \<Rightarrow> if IsEmpty pool then None else Some (MarkUpdated pool now)))) \<and>
     (\<forall>ks pool addr ep.
        poolAt (byUri r) ks = Some pool \<longrightarrow> (addr, ep) \<in> set (endpoints pool) \<longrightarrow>
        tPrune - now \<le> staleAfter pool (dropletStaleThreshold r) ep \<longrightarrow>
        poolAt (byUri (pruneStaleDroplets r world now tPrune)) ks =
          Some (fst (PruneEndpoints (MarkUpdated pool now) (dropletStaleThreshold r) tPrune)) \<and>
        (addr, ep\<lparr>updated := now\<rparr>) \<in>
          set (endpoints (fst (PruneEndpoints (MarkUpdated pool now) (dropletStaleThreshold r) tPrune))))"
proof -
  have first: "pruneStaleDroplets r world now tPrune =
       pruneStaleDroplets ((freshenRoutes r now)\<lparr>pruningStatus := CONNECTED\<rparr>) world now tPrune"
    using assms by (simp add: pruneStaleDroplets_def Let_def freshenRoutes_def)
  have status: "pruningStatus (pruneStaleDroplets r world now tPrune) = CONNECTED"
    using assms by (simp add: pruneStaleDroplets_def Let_def)
  have kept: "poolAt (byUri (pruneStaleDroplets r world now tPrune)) ks =
         (case poolAt (byUri r) ks of
            None \<Rightarrow> None
          | Some pool \<Rightarrow> if IsEmpty pool then None else Some (MarkUpdated pool now))"
    if fresh: "\<forall>ks pool addr ep. poolAt (byUri r) ks = Some pool \<longrightarrow> (addr, ep) \<in> set (endpoints pool) \<longrightarrow>
          tPrune - now \<le> staleAfter pool (dropletStaleThreshold r) ep" for ks
  proof (cases "poolAt (byUri r) ks")
    case None
    then show ?thesis using assms by (simp add: poolAt_pruneStaleDroplets)
  next
    case (Some pool)
    have "fst (PruneEndpoints (MarkUpdated pool now) (dropletStaleThreshold r) tPrune)
            = MarkUpdated pool now"
      using fresh Some by (intro PruneEndpoints_fresh) blast
    then show ?thesis
      using assms Some by (simp add: poolAt_pruneStaleDroplets Let_def IsEmpty_MarkUpdated)
  qed
  have survives: "poolAt (byUri (pruneStaleDroplets r world now tPrune)) ks =
          Some (fst (PruneEndpoints (MarkUpdated pool now) (dropletStaleThreshold r) tPrune)) \<and>
        (addr, ep\<lparr>updated := now\<rparr>) \<in>
          set (endpoints (fst (PruneEndpoints (MarkUpdated pool now) (dropletStaleThreshold r) tPrune)))"
    if at: "poolAt (byUri r) ks = Some pool" and mem: "(addr, ep) \<in> set (endpoints pool)"
      and within: "tPrune - now \<le> staleAfter pool (dropletStaleThreshold r) ep" for ks pool addr ep
  proof -
    have here: "(addr, ep\<lparr>updated := now\<rparr>) \<in>
          set (endpoints (fst (PruneEndpoints (MarkUpdated pool now) (dropletStaleThreshold r) tPrune)))"
      using mem within by (rule PruneEndpoints_keeps)
    then have "\<not> IsEmpty (fst (PruneEndpoints (MarkUpdated pool now) (dropletStaleThreshold r) tPrune))"
      by (auto simp: IsEmpty_def)
    then have "poolAt (byUri (pruneStaleDroplets r world now tPrune)) ks =
          Some (fst (PruneEndpoints (MarkUpdated pool now) (dropletStaleThreshold r) tPrune))"
      using assms at by (simp add: poolAt_pruneStaleDroplets Let_def)
    with here show ?thesis by blast
  qed
  have frame: "\<forall>ks. poolAt (byUri (freshenRoutes r now)) ks =
        map_option (\<lambda>pool. MarkUpdated pool now) (poolAt (byUri r) ks)"
    by (simp add: poolAt_freshenRoutes)
  show ?thesis
    using first status frame kept survives by blast
qed

lemma app1_app2_addresses: "CanonicalAddr app1 \<noteq> CanonicalAddr app2"
  by (simp add: CanonicalAddr_def app1_def app2_def NewEndpoint_def)

theorem reconnect_tick_refreshes_then_evicts_witness:
  "pruningStatus
     ((Register (Register (NewRouteRegistry :: unit RouteRegistry) ''foo.example.com'' app1 0 0)
         ''foo.example.com'' app2 0 0)\<lparr>pruningStatus := DISCONNECTED\<rparr>) = DISCONNECTED \<and>
   \<not> suspendPruning
     ((Register (Register (NewRouteRegistry :: unit RouteRegistry) ''foo.example.com'' app1 0 0)
         ''foo.example.com'' app2 0 0)\<lparr>pruningStatus := DISCONNECTED\<rparr>) () \<and>
   pruningStatus
     (pruneStaleDroplets
        ((Register (Register (NewRouteRegistry :: unit RouteRegistry) ''foo.example.com'' app1 0 0)
            ''foo.example.com'' app2 0 0)\<lparr>pruningStatus := DISCONNECTED\<rparr>) () 10 11)
     = CONNECTED \<and>
   (\<exists>pool'.
      Find
        (byUri (pruneStaleDroplets
           ((Register (Register (NewRouteRegistry :: unit RouteRegistry) ''foo.example.com'' app1 0 0)
               ''foo.example.com'' app2 0 0)\<lparr>pruningStatus := DISCONNECTED\<rparr>) () 10 11))
        (RouteKey ''foo.example.com'') = Some pool' \<and>
      (CanonicalAddr app2, app2\<lparr>updated := 10\<rparr>) \<in> set (endpoints pool') \<and>
      (CanonicalAddr app1, app1\<lparr>updated := 10\<rparr>) \<notin> set (endpoints pool'))"
proof -
  define r :: "unit RouteRegistry" where
    "r = (Register (Register NewRouteRegistry ''foo.example.com'' app1 0 0)
            ''foo.example.com'' app2 0 0)\<lparr>pruningStatus := DISCONNECTED\<rparr>"
  define P where
    "P = Put (Put (NewPool (0 sdiv 4) (parseContextPath ''foo.example.com'')) app1 0) app2 0"
  define ks where "ks = segments (RouteKey ''foo.example.com'')"
  have status: "pruningStatus r = DISCONNECTED"
    by (simp add: r_def)
  have running: "\<not> suspendPruning r ()"
    by (simp add: r_def Register_def Let_def NewRouteRegistry_def)
  have thr: "dropletStaleThreshold r = 0"
    by (simp add: r_def Register_def Let_def NewRouteRegistry_def)
  have at: "poolAt (byUri r) ks = Some P"
    unfolding P_def r_def ks_def
    by (simp add: poolAt_Register NewRouteRegistry_def poolAt_NewTrie)
  have mem: "(CanonicalAddr app2, app2\<lparr>updated := 0\<rparr>) \<in> set (endpoints P)"
    unfolding P_def by (rule map_of_SomeD) (rule Put_holds)
  have within: "11 - 10 \<le> staleAfter P (dropletStaleThreshold r) (app2\<lparr>updated := 0\<rparr>)"
    by (simp add: staleAfter_def app2_def NewEndpoint_def)
  define P' where "P' = fst (PruneEndpoints (MarkUpdated P 10) (dropletStaleThreshold r) 11)"
  note tick = reconnect_tick_refreshes_then_evicts [OF status running, of 10 11]
  from tick have connected: "pruningStatus (pruneStaleDroplets r () 10 11) = CONNECTED"
    by blast
  from tick at mem within
  have "poolAt (byUri (pruneStaleDroplets r () 10 11)) ks = Some P' \<and>
      (CanonicalAddr app2, app2\<lparr>updated := 0\<rparr>\<lparr>updated := 10\<rparr>) \<in> set (endpoints P')"
    unfolding P'_def by blast
  then have found: "Find (byUri (pruneStaleDroplets r () 10 11)) (RouteKey ''foo.example.com'') = Some P'"
    and kept: "(CanonicalAddr app2, app2\<lparr>updated := 10\<rparr>) \<in> set (endpoints P')"
    by (simp_all add: Find_def ks_def)
  have "endpoints P = [(CanonicalAddr app1, app1\<lparr>updated := 0\<rparr>), (CanonicalAddr app2, app2\<lparr>updated := 0\<rparr>)]"
    using app1_app2_addresses by (simp add: P_def Put_def NewPool_def CanonicalAddr_updated)
  then have "endpoints P' = [(CanonicalAddr app2, app2\<lparr>updated := 10\<rparr>)]"
    by (simp add: P'_def thr PruneEndpoints_def MarkUpdated_def isStale_def staleAfter_def)
      (simp add: P_def Put_def NewPool_def app1_def app2_def NewEndpoint_def)
  then have evicted: "(CanonicalAddr app1, app1\<lparr>updated := 10\<rparr>) \<notin> set (endpoints P')"
    using app1_app2_addresses by simp
  have "pruningStatus r = DISCONNECTED \<and> \<not> suspendPruning r () \<and>
     pruningStatus (pruneStaleDroplets r () 10 11) = CONNECTED \<and>
     (\<exists>pool'. Find (byUri (pruneStaleDroplets r () 10 11)) (RouteKey ''foo.example.com'') = Some pool' \<and>
        (CanonicalAddr app2, app2\<lparr>updated := 10\<rparr>) \<in> set (endpoints pool') \<and>
        (CanonicalAddr app1, app1\<lparr>updated := 10\<rparr>) \<notin> set (endpoints pool'))"
    using status running connected found kept evicted by blast
  then show ?thesis
    unfolding r_def .
qed

subsection \<open>The invariant and Unregister on a registry with one route\<close>

theorem pool_in_trie_iff_not_empty_witness:
  "poolsNonEmpty (byUri (Register (NewRouteRegistry :: unit RouteRegistry) ''foo.example.com'' app1 1 2)) \<and>
   poolsNonEmpty (byUri (Unregister (Register (NewRouteRegistry :: unit RouteRegistry)
      ''foo.example.com'' app1 1 2) ''foo.example.com'' app1)) \<and>
   Find (byUri (Unregister (Register (NewRouteRegistry :: unit RouteRegistry)
      ''foo.example.com'' app1 1 2) ''foo.example.com'' app1)) (RouteKey ''foo.example.com'') = None \<and>
   Find (byUri (Register (Register (NewRouteRegistry :: unit RouteRegistry)
      ''foo.example.com'' app1 1 2) ''bar.example.com'' app2 3 4)) (RouteKey ''foo.example.com'')
     = Find (byUri (Register (NewRouteRegistry :: unit RouteRegistry) ''foo.example.com'' app1 1 2))
         (RouteKey ''foo.example.com'') \<and>
   Find (byUri (Register (NewRouteRegistry :: unit RouteRegistry) ''foo.example.com'' app1 1 2))
         (RouteKey ''foo.example.com'')
     = Some (Put (NewPool (0 sdiv 4) (parseContextPath ''foo.example.com'')) app1 2)"
proof -
  define r :: "unit RouteRegistry" where "r = Register NewRouteRegistry ''foo.example.com'' app1 1 2"
  define P where "P = Put (NewPool (0 sdiv 4) (parseContextPath ''foo.example.com'')) app1 2"
  have inv: "poolsNonEmpty (byUri r)"
    unfolding r_def by (intro poolsNonEmpty_Register poolsNonEmpty_NewRouteRegistry)
  have at: "poolAt (byUri r) (segments (RouteKey ''foo.example.com'')) = Some P"
    unfolding P_def r_def
    by (simp add: poolAt_Register NewRouteRegistry_def poolAt_NewTrie)
  have gone: "IsEmpty (Remove P app1)"
    by (simp add: P_def IsEmpty_def Remove_def Put_def NewPool_def CanonicalAddr_updated)
  have segs: "segments (RouteKey ''foo.example.com'') \<noteq> segments (RouteKey ''bar.example.com'')"
    by (simp add: segments_def RouteKey_def Uri_String_def)
  note ops = pool_in_trie_iff_not_empty [OF inv, of "''foo.example.com''" app1 1 2 "()" 0 0]
  from ops have kept: "poolsNonEmpty (byUri (Unregister r ''foo.example.com'' app1))"
    by blast
  from ops have "\<forall>ks. poolAt (byUri (Unregister r ''foo.example.com'' app1)) ks =
        (if ks = segments (RouteKey ''foo.example.com'')
         then (case poolAt (byUri r) ks of
                 None \<Rightarrow> None
               | Some pool \<Rightarrow> if IsEmpty (Remove pool app1) then None else Some (Remove pool app1))
         else poolAt (byUri r) ks)"
    by blast
  then have unreg: "Find (byUri (Unregister r ''foo.example.com'' app1)) (RouteKey ''foo.example.com'') = None"
    using gone by (simp add: Find_def at)
  from pool_in_trie_iff_not_empty [OF inv, of "''bar.example.com''" app2 3 4 "()" 0 0]
  have "\<forall>ks. poolAt (byUri (Register r ''bar.example.com'' app2 3 4)) ks =
        (if ks = segments (RouteKey ''bar.example.com'')
         then Some (Put (case poolAt (byUri r) ks of
                           None \<Rightarrow> NewPool (dropletStaleThreshold r sdiv 4) (parseContextPath ''bar.example.com'')
                         | Some pool \<Rightarrow> pool) app2 4)
         else poolAt (byUri r) ks)"
    by blast
  then have other: "Find (byUri (Register r ''bar.example.com'' app2 3 4)) (RouteKey ''foo.example.com'')
      = Find (byUri r) (RouteKey ''foo.example.com'')"
    using segs by (simp add: Find_def)
  have here: "Find (byUri r) (RouteKey ''foo.example.com'') = Some P"
    using at by (simp add: Find_def)
  have "poolsNonEmpty (byUri r) \<and> poolsNonEmpty (byUri (Unregister r ''foo.example.com'' app1)) \<and>
     Find (byUri (Unregister r ''foo.example.com'' app1)) (RouteKey ''foo.example.com'') = None \<and>
     Find (byUri (Register r ''bar.example.com'' app2 3 4)) (RouteKey ''foo.example.com'')
       = Find (byUri r) (RouteKey ''foo.example.com'') \<and>
     Find (byUri r) (RouteKey ''foo.example.com'') = Some P"
    using inv kept unreg other here by blast
  then show ?thesis
    unfolding r_def P_def .
qed

theorem Unregister_removes_or_leaves_unchanged_witness:
  "poolsNonEmpty (byUri (Register (NewRouteRegistry :: unit RouteRegistry) ''foo.example.com'' app1 1 2)) \<and>
   Find (byUri (Register (NewRouteRegistry :: unit RouteRegistry) ''foo.example.com'' app1 1 2))
     (RouteKey ''bar.example.com'') = None \<and>
   Unregister (Register (NewRouteRegistry :: unit RouteRegistry) ''foo.example.com'' app1 1 2)
     ''bar.example.com'' app1
     = Register (NewRouteRegistry :: unit RouteRegistry) ''foo.example.com'' app1 1 2 \<and>
   Find (byUri (Unregister (Register (NewRouteRegistry :: unit RouteRegistry)
      ''foo.example.com'' app1 1 2) ''foo.example.com'' app1)) (RouteKey ''foo.example.com'') = None"
proof -
  define r :: "unit RouteRegistry" where "r = Register NewRouteRegistry ''foo.example.com'' app1 1 2"
  define P where "P = Put (NewPool (0 sdiv 4) (parseContextPath ''foo.example.com'')) app1 2"
  have inv: "poolsNonEmpty (byUri r)"
    unfolding r_def by (intro poolsNonEmpty_Register poolsNonEmpty_NewRouteRegistry)
  have segs: "segments (RouteKey ''bar.example.com'') \<noteq> segments (RouteKey ''foo.example.com'')"
    by (simp add: segments_def RouteKey_def Uri_String_def)
  have miss: "Find (byUri r) (RouteKey ''bar.example.com'') = None"
    using segs by (simp add: Find_def r_def poolAt_Register NewRouteRegistry_def poolAt_NewTrie)
  have hit: "Find (byUri r) (RouteKey ''foo.example.com'') = Some P"
    unfolding P_def r_def
    by (simp add: Find_def poolAt_Register NewRouteRegistry_def poolAt_NewTrie)
  have gone: "IsEmpty (Remove P app1)"
    by (simp add: P_def IsEmpty_def Remove_def Put_def NewPool_def CanonicalAddr_updated)
  from miss Unregister_removes_or_leaves_unchanged [OF inv, of "''bar.example.com''" app1]
  have same: "Unregister r ''bar.example.com'' app1 = r"
    by blast
  from hit Unregister_removes_or_leaves_unchanged [OF inv, of "''foo.example.com''" app1]
  have "Find (byUri (Unregister r ''foo.example.com'' app1)) (RouteKey ''foo.example.com'') =
          (if IsEmpty (Remove P app1) then None else Some (Remove P app1))"
    by blast
  with gone have "Find (byUri (Unregister r ''foo.example.com'' app1)) (RouteKey ''foo.example.com'') = None"
    by simp
  with inv miss same
  have "poolsNonEmpty (byUri r) \<and> Find (byUri r) (RouteKey ''bar.example.com'') = None \<and>
     Unregister r ''bar.example.com'' app1 = r \<and>
     Find (byUri (Unregister r ''foo.example.com'' app1)) (RouteKey ''foo.example.com'') = None"
    by blast
  then show ?thesis
    unfolding r_def .
qed

subsection \<open>The context path of a new pool\<close>

lemma parseContextPath_shape:
  "(\<exists>rest. parseContextPath uri = CHR ''/'' # rest) \<and> CHR ''?'' \<notin> set (parseContextPath uri)"
proof -
  define t where "t = (let split = strings_SplitN2 (strings_TrimPrefix (Uri_String uri) ''/'') (CHR ''/'')
                       in if length split > 1 then split ! 1 else [])"
  have eq: "parseContextPath uri =
      (if strings_Index (CHR ''/'' # t) (CHR ''?'') \<ge> 0
       then take (nat (strings_Index (CHR ''/'' # t) (CHR ''?''))) (CHR ''/'' # t) else CHR ''/'' # t)"
    by (simp add: parseContextPath_def t_def Let_def)
  show ?thesis
  proof (cases "CHR ''?'' \<in> set (CHR ''/'' # t)")
    case True
    then have nn: "strings_Index (CHR ''/'' # t) (CHR ''?'') \<ge> 0"
      by (simp only: Index_nonneg_iff)
    from Index_slash_pos [OF True] obtain m where m: "nat (strings_Index (CHR ''/'' # t) (CHR ''?'')) = Suc m"
      by (cases "nat (strings_Index (CHR ''/'' # t) (CHR ''?''))") auto
    have "parseContextPath uri = take (Suc m) (CHR ''/'' # t)"
      using eq nn m by simp
    moreover have "CHR ''?'' \<notin> set (take (Suc m) (CHR ''/'' # t))"
      using take_Index_free [OF True] m by simp
    ultimately show ?thesis by simp
  next
    case False
    then have "\<not> strings_Index (CHR ''/'' # t) (CHR ''?'') \<ge> 0"
      by (simp only: Index_nonneg_iff not_False_eq_True)
    then have "parseContextPath uri = CHR ''/'' # t"
      using eq by simp
    then show ?thesis using False by simp
  qed
qed

lemma contextPath_Put: "contextPath (Put pool e t) = contextPath pool"
  by (simp add: Put_def)

text \<open>
  C10: for every input URI, \<open>parseContextPath\<close> returns a string that begins with
  \<open>/\<close> and contains no \<open>?\<close>. In particular, when \<open>Register\<close> creates the pool of a
  key, the context path stored in the pool is that string and holds no query string.
\<close>

theorem parseContextPath_slash_no_query:
  "(\<exists>rest. parseContextPath uri = CHR ''/'' # rest) \<and>
   CHR ''?'' \<notin> set (parseContextPath uri) \<and>
   (Find (byUri r) (RouteKey uri) = None \<longrightarrow>
      (\<exists>pool. Find (byUri (Register r uri e t tPut)) (RouteKey uri) = Some pool \<and>
         contextPath pool = parseContextPath uri \<and>
         CHR ''?'' \<notin> set (contextPath pool)))"
proof -
  have "\<exists>pool. Find (byUri (Register r uri e t tPut)) (RouteKey uri) = Some pool \<and>
         contextPath pool = parseContextPath uri \<and>
         CHR ''?'' \<notin> set (contextPath pool)"
    if "Find (byUri r) (RouteKey uri) = None"
    using that parseContextPath_shape [of uri]
    by (simp add: Find_Register contextPath_Put NewPool_def)
  then show ?thesis
    using parseContextPath_shape [of uri] by blast
qed

lemma parseContextPath_example: "parseContextPath ''foo.example.com/some/path?x=1'' = ''/some/path''"
  by (simp add: parseContextPath_def strings_SplitN2_def strings_TrimPrefix_def
      strings_HasPrefix_def strings_Index_def Uri_String_def Let_def)

theorem parseContextPath_slash_no_query_witness:
  "Find (byUri (NewRouteRegistry :: unit RouteRegistry)) (RouteKey ''foo.example.com/some/path?x=1'') = None \<and>
   parseContextPath ''foo.example.com/some/path?x=1'' = ''/some/path'' \<and>
   (\<exists>pool. Find (byUri (Register (NewRouteRegistry :: unit RouteRegistry)
                ''foo.example.com/some/path?x=1'' app1 1 2))
              (RouteKey ''foo.example.com/some/path?x=1'') = Some pool \<and>
      contextPath pool = ''/some/path'')"
proof -
  have miss: "Find (byUri (NewRouteRegistry :: unit RouteRegistry))
      (RouteKey ''foo.example.com/some/path?x=1'') = None"
    by (simp add: Find_def NewRouteRegistry_def poolAt_NewTrie)
  from miss parseContextPath_slash_no_query
    [of "''foo.example.com/some/path?x=1''" "NewRouteRegistry :: unit RouteRegistry" app1 1 2]
  have "\<exists>pool. Find (byUri (Register (NewRouteRegistry :: unit RouteRegistry)
                ''foo.example.com/some/path?x=1'' app1 1 2))
              (RouteKey ''foo.example.com/some/path?x=1'') = Some pool \<and>
      contextPath pool = parseContextPath ''foo.example.com/some/path?x=1''"
    by blast
  then show ?thesis
    using miss by (simp only: parseContextPath_example simp_thms)
qed

end
